theory Spec2Isabelle
  imports Main "HOL-Library.AList"
begin

section \<open>Python values used by both scripts\<close>

text \<open>
  The two scripts, \<^verbatim>\<open>get_monthly_contributions.py\<close> (the collector) and
  \<^verbatim>\<open>graph_monthly_contributions.py\<close> (the renderer), are embedded as HOL functions.
  An exception that the Python raises is a value \<open>Inl e\<close> of a sum type; a loop that
  need not end returns an \<open>option\<close>, \<open>None\<close> standing for a run that never returns.
\<close>

datatype error = KeyError string | ValueError string | FileNotFoundError string

subsection \<open>Formatting integers: \<^verbatim>\<open>'%d'\<close> and \<^verbatim>\<open>'%02d'\<close>\<close>

definition digit_chars :: string where
  "digit_chars = ''0123456789''"

fun str_nat :: "nat \<Rightarrow> string" where
  "str_nat n =
     (if n < 10 then [digit_chars ! n] else str_nat (n div 10) @ [digit_chars ! (n mod 10)])"

declare str_nat.simps [simp del]

definition str_int :: "int \<Rightarrow> string" where
  \<comment> \<open>\<^verbatim>\<open>'%d' % i\<close>, also \<^verbatim>\<open>str(i)\<close>\<close>
  "str_int i = (if i < 0 then CHR ''-'' # str_nat (nat (- i)) else str_nat (nat i))"

definition fmt_02d :: "int \<Rightarrow> string" where
  \<comment> \<open>\<^verbatim>\<open>'%02d' % i\<close>: only a single digit is shorter than the width 2\<close>
  "fmt_02d i = (let s = str_int i in if length s < 2 then CHR ''0'' # s else s)"

definition month_key :: "int \<Rightarrow> int \<Rightarrow> string" where
  \<comment> \<open>\<^verbatim>\<open>'%d-%02d' % (year, month)\<close>\<close>
  "month_key y m = str_int y @ ''-'' @ fmt_02d m"

subsection \<open>Dates and \<^verbatim>\<open>datetime.strptime\<close>\<close>

text \<open>
  \<^verbatim>\<open>datetime.date\<close> and \<^verbatim>\<open>datetime.datetime\<close>: the second extends the first, so a function
  that reads only \<open>year\<close> and \<open>month\<close> takes both, as the duck-typed Python does.
\<close>

record date =
  year :: int
  month :: int
  day :: int

record datetime = date +
  hour :: int
  minute :: int
  second :: int

definition date_less :: "date \<Rightarrow> date \<Rightarrow> bool" where
  \<comment> \<open>\<^verbatim>\<open>d1 < d2\<close> on \<^verbatim>\<open>datetime.date\<close>\<close>
  "date_less d1 d2 =
     (year d1 < year d2 \<or> (year d1 = year d2 \<and>
       (month d1 < month d2 \<or> (month d1 = month d2 \<and> day d1 < day d2))))"

text \<open>
  \<^verbatim>\<open>strptime\<close> turns its format into a regular expression, one group per directive, and
  matches it at the start of the string, with backtracking. The expressions used here are
  built from character classes, sequence and alternation; \<open>rmatch r s k\<close> matches \<open>r\<close> at the
  start of \<open>s\<close> and hands the matched text and the rest of the string to the continuation
  \<open>k\<close>, which stands for the rest of the expression. An alternation tries its left side
  first and its right side when the left side, or the rest of the expression after it,
  fails. Strings are byte strings here: a digit is one of \<open>0\<close> to \<open>9\<close>.
\<close>

datatype regex = Cls string | Seq regex regex | Alt regex regex

fun rmatch :: "regex \<Rightarrow> string \<Rightarrow> (string \<Rightarrow> string \<Rightarrow> 'a option) \<Rightarrow> 'a option" where
  "rmatch (Cls cs) [] k = None"
| "rmatch (Cls cs) (c # s) k = (if c \<in> set cs then k [c] s else None)"
| "rmatch (Seq r1 r2) s k = rmatch r1 s (\<lambda>a s'. rmatch r2 s' (\<lambda>b s''. k (a @ b) s''))"
| "rmatch (Alt r1 r2) s k =
     (case rmatch r1 s k of
        Some x \<Rightarrow> Some x
      | None \<Rightarrow> rmatch r2 s k)"

definition digit_val :: "char \<Rightarrow> int" where
  "digit_val c = int (of_char c) - 48"

definition int_of_str :: "string \<Rightarrow> int" where
  \<comment> \<open>\<^verbatim>\<open>int(s)\<close> for a group the expression matched: digits, after blanks\<close>
  "int_of_str s =
     foldl (\<lambda>acc c. 10 * acc + digit_val c) 0 (dropWhile (\<lambda>c. c = CHR '' '') s)"

definition re_digit :: regex where
  \<comment> \<open>\<^verbatim>\<open>\d\<close>\<close>
  "re_digit = Cls digit_chars"

definition re_nonzero :: regex where
  \<comment> \<open>\<^verbatim>\<open>[1-9]\<close>\<close>
  "re_nonzero = Cls ''123456789''"

definition re_Y :: regex where
  \<comment> \<open>\<^verbatim>\<open>%Y\<close> is \<^verbatim>\<open>\d\d\d\d\<close>\<close>
  "re_Y = Seq re_digit (Seq re_digit (Seq re_digit re_digit))"

definition re_m :: regex where
  \<comment> \<open>\<^verbatim>\<open>%m\<close> is \<^verbatim>\<open>1[0-2]|0[1-9]|[1-9]\<close>\<close>
  "re_m = Alt (Seq (Cls ''1'') (Cls ''012'')) (Alt (Seq (Cls ''0'') re_nonzero) re_nonzero)"

definition re_d :: regex where
  \<comment> \<open>\<^verbatim>\<open>%d\<close> is \<^verbatim>\<open>3[0-1]|[1-2]\d|0[1-9]|[1-9]| [1-9]\<close>\<close>
  "re_d = Alt (Seq (Cls ''3'') (Cls ''01'')) (Alt (Seq (Cls ''12'') re_digit)
            (Alt (Seq (Cls ''0'') re_nonzero) (Alt re_nonzero (Seq (Cls '' '') re_nonzero))))"

definition re_H :: regex where
  \<comment> \<open>\<^verbatim>\<open>%H\<close> is \<^verbatim>\<open>2[0-3]|[0-1]\d|\d\<close>\<close>
  "re_H = Alt (Seq (Cls ''2'') (Cls ''0123'')) (Alt (Seq (Cls ''01'') re_digit) re_digit)"

definition re_M :: regex where
  \<comment> \<open>\<^verbatim>\<open>%M\<close> is \<^verbatim>\<open>[0-5]\d|\d\<close>\<close>
  "re_M = Alt (Seq (Cls ''012345'') re_digit) re_digit"

definition re_S :: regex where
  \<comment> \<open>\<^verbatim>\<open>%S\<close> is \<^verbatim>\<open>6[0-1]|[0-5]\d|\d\<close>\<close>
  "re_S = Alt (Seq (Cls ''6'') (Cls ''01'')) (Alt (Seq (Cls ''012345'') re_digit) re_digit)"

definition regex_Ym :: "string \<Rightarrow> (string \<times> string \<times> string) option" where
  \<comment> \<open>the format \<^verbatim>\<open>'%Y-%m'\<close>: the groups and the text left after the match\<close>
  "regex_Ym s =
     rmatch re_Y s (\<lambda>Y s. rmatch (Cls ''-'') s (\<lambda>_ s.
       rmatch re_m s (\<lambda>m s. Some (Y, m, s))))"

definition IsoDate :: "string \<Rightarrow> error + date" where
  \<comment> \<open>\<^verbatim>\<open>datetime.datetime.strptime(value, '%Y-%m').date()\<close>; the year 0 is out of range\<close>
  "IsoDate v =
     (case regex_Ym v of
        None \<Rightarrow> Inl (ValueError v)
      | Some (Y, m, rest) \<Rightarrow>
          if rest \<noteq> [] then Inl (ValueError v)
          else if int_of_str Y = 0 then Inl (ValueError v)
          else Inr \<lparr>year = int_of_str Y, month = int_of_str m, day = 1\<rparr>)"

definition regex_github_time ::
  "string \<Rightarrow> ((string \<times> string \<times> string \<times> string \<times> string \<times> string) \<times> string) option" where
  \<comment> \<open>the format \<^verbatim>\<open>'%Y-%m-%dT%H:%M:%SZ'\<close>; the expression ignores case, which matters
      for the letters \<^verbatim>\<open>T\<close> and \<^verbatim>\<open>Z\<close>\<close>
  "regex_github_time s =
     rmatch re_Y s (\<lambda>Y s. rmatch (Cls ''-'') s (\<lambda>_ s.
       rmatch re_m s (\<lambda>m s. rmatch (Cls ''-'') s (\<lambda>_ s.
       rmatch re_d s (\<lambda>d s. rmatch (Cls ''Tt'') s (\<lambda>_ s.
       rmatch re_H s (\<lambda>H s. rmatch (Cls '':'') s (\<lambda>_ s.
       rmatch re_M s (\<lambda>M s. rmatch (Cls '':'') s (\<lambda>_ s.
       rmatch re_S s (\<lambda>S s. rmatch (Cls ''Zz'') s (\<lambda>_ s.
         Some ((Y, m, d, H, M, S), s)))))))))))))"

definition is_leap :: "int \<Rightarrow> bool" where
  "is_leap y = (y mod 4 = 0 \<and> (y mod 100 \<noteq> 0 \<or> y mod 400 = 0))"

definition days_in_month :: "int \<Rightarrow> int \<Rightarrow> int" where
  "days_in_month y m =
     (if m = 2 then (if is_leap y then 29 else 28)
      else if m = 4 \<or> m = 6 \<or> m = 9 \<or> m = 11 then 30 else 31)"

definition parse_github_time :: "string \<Rightarrow> error + datetime" where
  \<comment> \<open>\<^verbatim>\<open>datetime.datetime.strptime(value, '%Y-%m-%dT%H:%M:%SZ')\<close>\<close>
  "parse_github_time v =
     (case regex_github_time v of
        None \<Rightarrow> Inl (ValueError v)
      | Some ((Y, m, d, H, M, S), rest) \<Rightarrow>
          if rest \<noteq> [] then Inl (ValueError v)
          else if int_of_str Y = 0 \<or> days_in_month (int_of_str Y) (int_of_str m) < int_of_str d
                  \<or> 59 < int_of_str S
          then Inl (ValueError v)
          else Inr \<lparr>year = int_of_str Y, month = int_of_str m, day = int_of_str d,
                    hour = int_of_str H, minute = int_of_str M, second = int_of_str S\<rparr>)"

subsection \<open>Dictionaries and sets\<close>

text \<open>
  A Python \<^verbatim>\<open>dict\<close> keeps its keys in insertion order, and that order is what
  \<^verbatim>\<open>items()\<close> and \<^verbatim>\<open>json.dump\<close> follow: a dictionary is an association list,
  \<^verbatim>\<open>d[k] = v\<close> is \<^const>\<open>AList.update\<close> (in place for a key already there, at the end for a
  new one) and a lookup is \<^const>\<open>map_of\<close>. A Python \<^verbatim>\<open>set\<close> is a list without
  repetitions; Python leaves the order of a set's elements open, the model keeps the order
  of insertion, and the theorems below speak of the elements only.
\<close>

type_synonym ('k, 'v) dict = "('k \<times> 'v) list"

definition dict_add :: "string \<Rightarrow> int \<Rightarrow> (string, int) dict \<Rightarrow> error + (string, int) dict" where
  \<comment> \<open>\<^verbatim>\<open>d[k] += a\<close>: a missing key raises \<^verbatim>\<open>KeyError\<close>\<close>
  "dict_add k a d =
     (case map_of d k of
        None \<Rightarrow> Inl (KeyError k)
      | Some v \<Rightarrow> Inr (AList.update k (v + a) d))"

definition set_add :: "'a \<Rightarrow> 'a list \<Rightarrow> 'a list" where
  "set_add x s = (if x \<in> set s then s else s @ [x])"

definition set_update :: "'a list \<Rightarrow> 'a list \<Rightarrow> 'a list" where
  \<comment> \<open>\<^verbatim>\<open>s.update(xs)\<close>\<close>
  "set_update xs s = foldl (\<lambda>s x. set_add x s) s xs"

definition set_of_list :: "'a list \<Rightarrow> 'a list" where
  \<comment> \<open>\<^verbatim>\<open>set(xs)\<close>\<close>
  "set_of_list xs = set_update xs []"

fun split_on :: "char \<Rightarrow> string \<Rightarrow> string list" where
  \<comment> \<open>\<^verbatim>\<open>s.split(c)\<close> for a one-character separator\<close>
  "split_on c [] = [[]]"
| "split_on c (x # xs) =
     (if x = c then [] # split_on c xs
      else (case split_on c xs of
              [] \<Rightarrow> [[x]]
            | w # ws \<Rightarrow> (x # w) # ws))"

section \<open>The collector: \<^verbatim>\<open>AuthorCounts\<close>\<close>

record author_counts =
  prs_by_month :: "(string, int) dict"
  reviews_by_month :: "(string, int) dict"
  pr_comments_by_month :: "(string, int) dict"
  issues_by_month :: "(string, int) dict"
  issue_comments_by_month :: "(string, int) dict"

definition zero_month :: "string \<Rightarrow> author_counts \<Rightarrow> author_counts" where
  \<comment> \<open>the five assignments \<^verbatim>\<open>self.*_by_month[stringdate] = 0\<close> of one month\<close>
  "zero_month stringdate self =
     self\<lparr>prs_by_month := AList.update stringdate 0 (prs_by_month self),
          reviews_by_month := AList.update stringdate 0 (reviews_by_month self),
          pr_comments_by_month := AList.update stringdate 0 (pr_comments_by_month self),
          issues_by_month := AList.update stringdate 0 (issues_by_month self),
          issue_comments_by_month := AList.update stringdate 0 (issue_comments_by_month self)\<rparr>"

definition AuthorCounts :: "'a date_scheme \<Rightarrow> author_counts" where
  \<comment> \<open>\<^verbatim>\<open>AuthorCounts.__init__\<close>: \<^verbatim>\<open>range(2013, today.year)\<close>, \<^verbatim>\<open>range(1, 12+1)\<close>,
      then \<^verbatim>\<open>range(1, today.month+1)\<close>\<close>
  "AuthorCounts today =
     (let self = \<lparr>prs_by_month = [], reviews_by_month = [], pr_comments_by_month = [],
                  issues_by_month = [], issue_comments_by_month = []\<rparr>;
          self = foldl (\<lambda>self y.
                   foldl (\<lambda>self m. zero_month (month_key y m) self) self [1..12])
                   self [2013..year today - 1]
      in foldl (\<lambda>self m. zero_month (month_key (year today) m) self) self [1..month today])"

definition increment_prs :: "author_counts \<Rightarrow> 'a date_scheme \<Rightarrow> int \<Rightarrow> error + author_counts" where
  "increment_prs self date activity =
     (let datemonth = month_key (year date) (month date) in
      case dict_add datemonth activity (prs_by_month self) of
        Inl e \<Rightarrow> Inl e
      | Inr d \<Rightarrow> Inr (self\<lparr>prs_by_month := d\<rparr>))"

definition increment_reviews :: "author_counts \<Rightarrow> 'a date_scheme \<Rightarrow> int \<Rightarrow> error + author_counts" where
  "increment_reviews self date activity =
     (let datemonth = month_key (year date) (month date) in
      case dict_add datemonth activity (reviews_by_month self) of
        Inl e \<Rightarrow> Inl e
      | Inr d \<Rightarrow> Inr (self\<lparr>reviews_by_month := d\<rparr>))"

definition increment_pr_comments :: "author_counts \<Rightarrow> 'a date_scheme \<Rightarrow> int \<Rightarrow> error + author_counts" where
  "increment_pr_comments self date activity =
     (let datemonth = month_key (year date) (month date) in
      case dict_add datemonth activity (pr_comments_by_month self) of
        Inl e \<Rightarrow> Inl e
      | Inr d \<Rightarrow> Inr (self\<lparr>pr_comments_by_month := d\<rparr>))"

definition increment_issues :: "author_counts \<Rightarrow> 'a date_scheme \<Rightarrow> int \<Rightarrow> error + author_counts" where
  "increment_issues self date activity =
     (let datemonth = month_key (year date) (month date) in
      case dict_add datemonth activity (issues_by_month self) of
        Inl e \<Rightarrow> Inl e
      | Inr d \<Rightarrow> Inr (self\<lparr>issues_by_month := d\<rparr>))"

definition increment_issue_comments :: "author_counts \<Rightarrow> 'a date_scheme \<Rightarrow> int \<Rightarrow> error + author_counts" where
  "increment_issue_comments self date activity =
     (let datemonth = month_key (year date) (month date) in
      case dict_add datemonth activity (issue_comments_by_month self) of
        Inl e \<Rightarrow> Inl e
      | Inr d \<Rightarrow> Inr (self\<lparr>issue_comments_by_month := d\<rparr>))"

section \<open>The collector: the persisted dataset\<close>

text \<open>
  The in-memory dataset \<^verbatim>\<open>output_data\<close> is a dictionary with the three keys
  \<^verbatim>\<open>last_updated\<close>, \<^verbatim>\<open>repos_visited\<close> (a set) and \<^verbatim>\<open>author_contrib\<close>. The file holds the
  JSON document that \<^verbatim>\<open>json.dump\<close> writes with \<^verbatim>\<open>JSONEncoderWithSets\<close>: the set
  becomes a list (\<^verbatim>\<open>list(obj)\<close>) and an \<^verbatim>\<open>AuthorCounts\<close> becomes the dictionary of its five
  attributes (\<^verbatim>\<open>vars(obj)\<close>), which is the record \<^typ>\<open>author_counts\<close> again. The document is
  kept as the value \<^verbatim>\<open>json.load\<close> gives back, not as text. A file system maps a file name
  to the document stored under it.
\<close>

record output_data =
  last_updated :: string
  repos_visited :: "string list"
  author_contrib :: "(string, author_counts) dict"

record dataset_file =
  file_last_updated :: string
  file_repos_visited :: "string list"
  file_author_contrib :: "(string, author_counts) dict"

type_synonym filesystem = "string \<Rightarrow> dataset_file option"

definition strftime_Ymd :: "'a date_scheme \<Rightarrow> string" where
  \<comment> \<open>\<^verbatim>\<open>today.strftime('%Y-%m-%d')\<close>, for a year of four digits\<close>
  "strftime_Ymd d = str_int (year d) @ ''-'' @ fmt_02d (month d) @ ''-'' @ fmt_02d (day d)"

fun load_counter ::
  "(author_counts \<Rightarrow> date \<Rightarrow> int \<Rightarrow> error + author_counts) \<Rightarrow> (string, int) dict
     \<Rightarrow> author_counts \<Rightarrow> error + author_counts" where
  \<comment> \<open>one of the five loops \<^verbatim>\<open>for datestr, activity in ...items()\<close>, with its increment\<close>
  "load_counter increment [] self = Inr self"
| "load_counter increment ((datestr, activity) # rest) self =
     (case IsoDate datestr of
        Inl e \<Rightarrow> Inl e
      | Inr date \<Rightarrow>
          (case increment self date activity of
             Inl e \<Rightarrow> Inl e
           | Inr self' \<Rightarrow> load_counter increment rest self'))"

definition load_author :: "'a date_scheme \<Rightarrow> author_counts \<Rightarrow> error + author_counts" where
  \<comment> \<open>the body of \<^verbatim>\<open>for author, values in data['author_contrib'].items()\<close>\<close>
  "load_author today values =
     (case load_counter increment_prs (prs_by_month values) (AuthorCounts today) of
        Inl e \<Rightarrow> Inl e
      | Inr c1 \<Rightarrow>
     (case load_counter increment_reviews (reviews_by_month values) c1 of
        Inl e \<Rightarrow> Inl e
      | Inr c2 \<Rightarrow>
     (case load_counter increment_pr_comments (pr_comments_by_month values) c2 of
        Inl e \<Rightarrow> Inl e
      | Inr c3 \<Rightarrow>
     (case load_counter increment_issues (issues_by_month values) c3 of
        Inl e \<Rightarrow> Inl e
      | Inr c4 \<Rightarrow> load_counter increment_issue_comments (issue_comments_by_month values) c4))))"

fun load_authors ::
  "'a date_scheme \<Rightarrow> (string, author_counts) dict \<Rightarrow> (string, author_counts) dict
     \<Rightarrow> error + (string, author_counts) dict" where
  "load_authors today [] contrib = Inr contrib"
| "load_authors today ((author, values) # rest) contrib =
     (case load_author today values of
        Inl e \<Rightarrow> Inl e
      | Inr counts \<Rightarrow> load_authors today rest (AList.update author counts contrib))"

definition load_existing_data :: "filesystem \<Rightarrow> string \<Rightarrow> 'a date_scheme \<Rightarrow> error + output_data" where
  "load_existing_data fs filename today =
     (let output_data = \<lparr>last_updated = strftime_Ymd today, repos_visited = [],
                         author_contrib = []\<rparr> in
      case fs filename of
        None \<Rightarrow> Inr output_data
      | Some data \<Rightarrow>
          (case load_authors today (file_author_contrib data) [] of
             Inl e \<Rightarrow> Inl e
           | Inr contrib \<Rightarrow>
               Inr \<lparr>last_updated = file_last_updated data,
                    repos_visited = set_of_list (file_repos_visited data),
                    author_contrib = contrib\<rparr>))"

definition json_dump :: "output_data \<Rightarrow> dataset_file" where
  \<comment> \<open>\<^verbatim>\<open>json.dump(data, f, indent=4, cls=JSONEncoderWithSets)\<close>\<close>
  "json_dump data =
     \<lparr>file_last_updated = last_updated data,
      file_repos_visited = repos_visited data,
      file_author_contrib = author_contrib data\<rparr>"

definition write_out_data :: "string \<Rightarrow> output_data \<Rightarrow> filesystem \<Rightarrow> filesystem" where
  \<comment> \<open>written to a temporary file that is then renamed: the file changes in one step\<close>
  "write_out_data filename data fs = fs(filename \<mapsto> json_dump data)"

section \<open>The collector: GitHub's GraphQL interface\<close>

text \<open>
  A query is the template with its variables substituted: \<^verbatim>\<open>PR_QUERY\<close> has
  \<^verbatim>\<open>org_name\<close>, \<^verbatim>\<open>repo_name\<close>, \<^verbatim>\<open>cursor\<close>, \<^verbatim>\<open>reviews_cursor\<close>, \<^verbatim>\<open>last_updated\<close> and
  \<^verbatim>\<open>comments_cursor\<close>; \<^verbatim>\<open>ISSUE_QUERY\<close> has \<^verbatim>\<open>org_name\<close>, \<^verbatim>\<open>repo_name\<close>, \<^verbatim>\<open>cursor\<close>,
  \<^verbatim>\<open>last_updated\<close> and \<^verbatim>\<open>comments_cursor\<close> (the \<^verbatim>\<open>reviews_cursor\<close> that \<^verbatim>\<open>query_issues\<close>
  passes to \<^verbatim>\<open>substitute\<close> does not occur in the template); \<^verbatim>\<open>ORG_QUERY\<close> has \<^verbatim>\<open>org_name\<close>
  and \<^verbatim>\<open>cursor\<close>.
\<close>

datatype query =
    PR_QUERY string string string string string string
  | ISSUE_QUERY string string string string string
  | ORG_QUERY string string

record page_info =
  hasNextPage :: bool
  endCursor :: "string option"

record 'a connection =
  pageInfo :: page_info
  nodes :: "'a list"

text \<open>
  The nodes of a response. An \<^verbatim>\<open>author\<close> is \<^verbatim>\<open>null\<close> (\<open>None\<close>) for a deleted account and
  an object with a \<^verbatim>\<open>login\<close> otherwise; \<^verbatim>\<open>submittedAt\<close> is \<^verbatim>\<open>null\<close> for a review that was
  started and not completed.
\<close>

record review_node =
  r_author :: "string option"
  r_submittedAt :: "string option"

record comment_node =
  c_author :: "string option"
  c_createdAt :: string

record pr_node =
  pr_id :: string
  pr_number :: int
  pr_createdAt :: string
  pr_author :: "string option"
  pr_reviews :: "review_node connection"
  pr_comments :: "comment_node connection"

record issue_node =
  issue_id :: string
  issue_number :: int
  issue_createdAt :: string
  issue_author :: "string option"
  issue_comments :: "comment_node connection"

record repo_node =
  defaultBranchRef :: "string option"
  repo_node_name :: string
  isArchived :: bool

text \<open>
  \<^verbatim>\<open>graphql_query(query, token)\<close> posts the query until the server answers with status 200
  and returns the decoded answer. The model takes the answer the call ends with as a
  function of the query and the token, one function per template, and reads
  \<^verbatim>\<open>response['data']['search']\<close> (or \<^verbatim>\<open>['organization']['repositories']\<close>) off it.
\<close>

record github =
  search_prs :: "query \<Rightarrow> string option \<Rightarrow> pr_node connection"
  search_issues :: "query \<Rightarrow> string option \<Rightarrow> issue_node connection"
  org_repositories :: "query \<Rightarrow> string option \<Rightarrow> repo_node connection"

section \<open>The collector: \<^verbatim>\<open>query_prs\<close>\<close>

record review =
  review_login :: string
  submitted_at_string :: string
  submitted_at :: datetime

record comment =
  comment_login :: string
  comment_created_at_string :: string
  comment_created_at :: datetime

record pull_request =
  login :: string
  created_at_string :: string
  created_at :: datetime
  reviews :: "review list"
  comments :: "comment list"

definition Review :: "string \<Rightarrow> string \<Rightarrow> error + review" where
  "Review l s =
     (case parse_github_time s of
        Inl e \<Rightarrow> Inl e
      | Inr t \<Rightarrow> Inr \<lparr>review_login = l, submitted_at_string = s, submitted_at = t\<rparr>)"

definition Comment :: "string \<Rightarrow> string \<Rightarrow> error + comment" where
  "Comment l s =
     (case parse_github_time s of
        Inl e \<Rightarrow> Inl e
      | Inr t \<Rightarrow> Inr \<lparr>comment_login = l, comment_created_at_string = s, comment_created_at = t\<rparr>)"

definition PullRequest :: "string \<Rightarrow> string \<Rightarrow> error + pull_request" where
  "PullRequest l s =
     (case parse_github_time s of
        Inl e \<Rightarrow> Inl e
      | Inr t \<Rightarrow> Inr \<lparr>login = l, created_at_string = s, created_at = t, reviews = [],
                      comments = []\<rparr>)"

definition quoted :: "string option \<Rightarrow> string" where
  \<comment> \<open>\<^verbatim>\<open>'"%s"' % (page_info['endCursor'])\<close>; a \<^verbatim>\<open>null\<close> end cursor prints as \<^verbatim>\<open>None\<close>\<close>
  "quoted c = [CHR 0x22] @ (case c of None \<Rightarrow> ''None'' | Some t \<Rightarrow> t) @ [CHR 0x22]"

text \<open>
  The local variables of the loop, with the queries issued so far (the calls of
  \<^verbatim>\<open>graphql_query\<close>, which are the loop's effect on the outside). \<open>collected\<close> is
  \<^verbatim>\<open>pull_requests\<close> in \<^verbatim>\<open>query_prs\<close> and \<^verbatim>\<open>issues\<close> in \<^verbatim>\<open>query_issues\<close>.
\<close>

record 'a loop_state =
  cursor :: string
  reviews_cursor :: string
  comments_cursor :: string
  has_next_page :: bool
  collected :: "(string, 'a) dict"
  issued :: "query list"

fun add_reviews :: "review_node list \<Rightarrow> pull_request \<Rightarrow> error + pull_request" where
  \<comment> \<open>\<^verbatim>\<open>for review in reviews['nodes']\<close>, on the object \<^verbatim>\<open>pull_requests[pr_id]\<close>\<close>
  "add_reviews [] pr = Inr pr"
| "add_reviews (r # rest) pr =
     (case r_author r of
        None \<Rightarrow> add_reviews rest pr
      | Some l \<Rightarrow>
          (case r_submittedAt r of
             None \<Rightarrow> add_reviews rest pr
           | Some s \<Rightarrow>
               (case Review l s of
                  Inl e \<Rightarrow> Inl e
                | Inr x \<Rightarrow> add_reviews rest (pr\<lparr>reviews := reviews pr @ [x]\<rparr>))))"

fun add_comments :: "comment_node list \<Rightarrow> pull_request \<Rightarrow> error + pull_request" where
  \<comment> \<open>\<^verbatim>\<open>for comment in comments['nodes']\<close>, on the object \<^verbatim>\<open>pull_requests[pr_id]\<close>\<close>
  "add_comments [] pr = Inr pr"
| "add_comments (c # rest) pr =
     (case c_author c of
        None \<Rightarrow> add_comments rest pr
      | Some l \<Rightarrow>
          (case Comment l (c_createdAt c) of
             Inl e \<Rightarrow> Inl e
           | Inr x \<Rightarrow> add_comments rest (pr\<lparr>comments := comments pr @ [x]\<rparr>)))"

definition visit_pr :: "pr_node \<Rightarrow> pull_request loop_state \<Rightarrow> error + pull_request loop_state" where
  \<comment> \<open>the body of \<^verbatim>\<open>for pr in results['nodes']\<close>. The object stored under \<^verbatim>\<open>pr_id\<close> is new
      at every visit; it is changed in place afterwards, so the dictionary holds it as the
      visit leaves it.\<close>
  "visit_pr pr st =
     (case pr_author pr of
        None \<Rightarrow> Inr st
      | Some l \<Rightarrow>
          (case PullRequest l (pr_createdAt pr) of
             Inl e \<Rightarrow> Inl e
           | Inr obj \<Rightarrow>
               (case add_reviews (nodes (pr_reviews pr)) obj of
                  Inl e \<Rightarrow> Inl e
                | Inr obj \<Rightarrow>
                    if hasNextPage (pageInfo (pr_reviews pr))
                    then Inr (st\<lparr>collected := AList.update (pr_id pr) obj (collected st),
                                 reviews_cursor := quoted (endCursor (pageInfo (pr_reviews pr)))\<rparr>)
                    else
                      (case add_comments (nodes (pr_comments pr)) obj of
                         Inl e \<Rightarrow> Inl e
                       | Inr obj \<Rightarrow>
                           Inr (st\<lparr>collected := AList.update (pr_id pr) obj (collected st),
                                   reviews_cursor := ''null'',
                                   comments_cursor :=
                                     (if hasNextPage (pageInfo (pr_comments pr))
                                      then quoted (endCursor (pageInfo (pr_comments pr)))
                                      else ''null'')\<rparr>)))))"

fun visit_prs :: "pr_node list \<Rightarrow> pull_request loop_state \<Rightarrow> error + pull_request loop_state" where
  "visit_prs [] st = Inr st"
| "visit_prs (pr # rest) st =
     (case visit_pr pr st of
        Inl e \<Rightarrow> Inl e
      | Inr st' \<Rightarrow> visit_prs rest st')"

definition advance_prs :: "page_info \<Rightarrow> 'a loop_state \<Rightarrow> 'a loop_state" where
  \<comment> \<open>the \<^verbatim>\<open>if\<close> chain that ends a round of \<^verbatim>\<open>query_prs\<close>\<close>
  "advance_prs page_info st =
     (if reviews_cursor st \<noteq> ''null'' then st\<lparr>has_next_page := True\<rparr>
      else if comments_cursor st \<noteq> ''null'' then st\<lparr>has_next_page := True\<rparr>
      else if hasNextPage page_info
        then st\<lparr>cursor := quoted (endCursor page_info), has_next_page := True\<rparr>
      else st\<lparr>has_next_page := False\<rparr>)"

definition prs_round ::
  "pr_node connection \<Rightarrow> pull_request loop_state \<Rightarrow> error + pull_request loop_state" where
  \<comment> \<open>one round of the \<^verbatim>\<open>while\<close> loop, from the response on\<close>
  "prs_round results st =
     (case visit_prs (nodes results) st of
        Inl e \<Rightarrow> Inl e
      | Inr st' \<Rightarrow> Inr (advance_prs (pageInfo results) st'))"

partial_function (option) query_prs_loop ::
  "(query \<Rightarrow> string option \<Rightarrow> pr_node connection) \<Rightarrow> string \<Rightarrow> string \<Rightarrow> string option \<Rightarrow> string
     \<Rightarrow> pull_request loop_state \<Rightarrow> (error + pull_request loop_state) option" where
  "query_prs_loop graphql_query org_name repo_name tok lu st =
     (if has_next_page st
      then (case prs_round
                   (graphql_query
                      (PR_QUERY org_name repo_name (cursor st) (reviews_cursor st) lu
                         (comments_cursor st)) tok)
                   (st\<lparr>issued := issued st @
                      [PR_QUERY org_name repo_name (cursor st) (reviews_cursor st) lu
                         (comments_cursor st)]\<rparr>) of
              Inl e \<Rightarrow> Some (Inl e)
            | Inr st' \<Rightarrow> query_prs_loop graphql_query org_name repo_name tok lu st')
      else Some (Inr st))"

declare query_prs_loop.simps [code]

definition query_prs ::
  "(query \<Rightarrow> string option \<Rightarrow> pr_node connection) \<Rightarrow> string \<Rightarrow> string \<Rightarrow> string option \<Rightarrow> string
     \<Rightarrow> (error + (string, pull_request) dict \<times> query list) option" where
  \<comment> \<open>the result is \<^verbatim>\<open>pull_requests\<close>, with the queries that were issued\<close>
  "query_prs graphql_query org_name repo_name tok lu =
     (case query_prs_loop graphql_query org_name repo_name tok lu
             \<lparr>cursor = ''null'', reviews_cursor = ''null'', comments_cursor = ''null'',
              has_next_page = True, collected = [], issued = []\<rparr> of
        None \<Rightarrow> None
      | Some (Inl e) \<Rightarrow> Some (Inl e)
      | Some (Inr st) \<Rightarrow> Some (Inr (collected st, issued st)))"

section \<open>The collector: \<^verbatim>\<open>query_issues\<close> and \<^verbatim>\<open>query_org_repos_from_name\<close>\<close>

record issue =
  issue_login :: string
  issue_created_at_string :: string
  issue_created_at :: datetime
  issue_comment_list :: "comment list"

definition Issue :: "string \<Rightarrow> string \<Rightarrow> error + issue" where
  "Issue l s =
     (case parse_github_time s of
        Inl e \<Rightarrow> Inl e
      | Inr t \<Rightarrow> Inr \<lparr>issue_login = l, issue_created_at_string = s, issue_created_at = t,
                      issue_comment_list = []\<rparr>)"

fun add_issue_comments :: "comment_node list \<Rightarrow> issue \<Rightarrow> error + issue" where
  "add_issue_comments [] i = Inr i"
| "add_issue_comments (c # rest) i =
     (case c_author c of
        None \<Rightarrow> add_issue_comments rest i
      | Some l \<Rightarrow>
          (case Comment l (c_createdAt c) of
             Inl e \<Rightarrow> Inl e
           | Inr x \<Rightarrow>
               add_issue_comments rest (i\<lparr>issue_comment_list := issue_comment_list i @ [x]\<rparr>)))"

definition visit_issue :: "issue_node \<Rightarrow> issue loop_state \<Rightarrow> error + issue loop_state" where
  "visit_issue i st =
     (case issue_author i of
        None \<Rightarrow> Inr st
      | Some l \<Rightarrow>
          (case Issue l (issue_createdAt i) of
             Inl e \<Rightarrow> Inl e
           | Inr obj \<Rightarrow>
               (case add_issue_comments (nodes (issue_comments i)) obj of
                  Inl e \<Rightarrow> Inl e
                | Inr obj \<Rightarrow>
                    Inr (st\<lparr>collected := AList.update (issue_id i) obj (collected st),
                            comments_cursor :=
                              (if hasNextPage (pageInfo (issue_comments i))
                               then quoted (endCursor (pageInfo (issue_comments i)))
                               else ''null'')\<rparr>))))"

fun visit_issues :: "issue_node list \<Rightarrow> issue loop_state \<Rightarrow> error + issue loop_state" where
  "visit_issues [] st = Inr st"
| "visit_issues (i # rest) st =
     (case visit_issue i st of
        Inl e \<Rightarrow> Inl e
      | Inr st' \<Rightarrow> visit_issues rest st')"

definition advance_issues :: "page_info \<Rightarrow> 'a loop_state \<Rightarrow> 'a loop_state" where
  "advance_issues page_info st =
     (if comments_cursor st \<noteq> ''null'' then st\<lparr>has_next_page := True\<rparr>
      else if hasNextPage page_info
        then st\<lparr>cursor := quoted (endCursor page_info), has_next_page := True\<rparr>
      else st\<lparr>has_next_page := False\<rparr>)"

definition issues_round ::
  "issue_node connection \<Rightarrow> issue loop_state \<Rightarrow> error + issue loop_state" where
  "issues_round results st =
     (case visit_issues (nodes results) st of
        Inl e \<Rightarrow> Inl e
      | Inr st' \<Rightarrow> Inr (advance_issues (pageInfo results) st'))"

partial_function (option) query_issues_loop ::
  "(query \<Rightarrow> string option \<Rightarrow> issue_node connection) \<Rightarrow> string \<Rightarrow> string \<Rightarrow> string option \<Rightarrow> string
     \<Rightarrow> issue loop_state \<Rightarrow> (error + issue loop_state) option" where
  "query_issues_loop graphql_query org_name repo_name tok lu st =
     (if has_next_page st
      then (case issues_round
                   (graphql_query
                      (ISSUE_QUERY org_name repo_name (cursor st) lu (comments_cursor st)) tok)
                   (st\<lparr>issued := issued st @
                      [ISSUE_QUERY org_name repo_name (cursor st) lu (comments_cursor st)]\<rparr>) of
              Inl e \<Rightarrow> Some (Inl e)
            | Inr st' \<Rightarrow> query_issues_loop graphql_query org_name repo_name tok lu st')
      else Some (Inr st))"

declare query_issues_loop.simps [code]

definition query_issues ::
  "(query \<Rightarrow> string option \<Rightarrow> issue_node connection) \<Rightarrow> string \<Rightarrow> string \<Rightarrow> string option \<Rightarrow> string
     \<Rightarrow> (error + (string, issue) dict \<times> query list) option" where
  "query_issues graphql_query org_name repo_name tok lu =
     (case query_issues_loop graphql_query org_name repo_name tok lu
             \<lparr>cursor = ''null'', reviews_cursor = ''null'', comments_cursor = ''null'',
              has_next_page = True, collected = [], issued = []\<rparr> of
        None \<Rightarrow> None
      | Some (Inl e) \<Rightarrow> Some (Inl e)
      | Some (Inr st) \<Rightarrow> Some (Inr (collected st, issued st)))"

record org_state =
  org_cursor :: string
  org_has_next_page :: bool
  organization_repos :: "string list"
  org_issued :: "query list"

fun visit_repos :: "repo_node list \<Rightarrow> string list \<Rightarrow> string list" where
  \<comment> \<open>\<^verbatim>\<open>for repo in results['nodes']\<close>: a repository without a default branch is skipped\<close>
  "visit_repos [] names = names"
| "visit_repos (r # rest) names =
     (case defaultBranchRef r of
        None \<Rightarrow> visit_repos rest names
      | Some _ \<Rightarrow> visit_repos rest (names @ [repo_node_name r]))"

partial_function (option) query_org_repos_loop ::
  "(query \<Rightarrow> string option \<Rightarrow> repo_node connection) \<Rightarrow> string \<Rightarrow> string option \<Rightarrow> org_state
     \<Rightarrow> org_state option" where
  "query_org_repos_loop graphql_query org_name tok st =
     (if org_has_next_page st
      then query_org_repos_loop graphql_query org_name tok
             \<lparr>org_cursor =
                quoted (endCursor (pageInfo (graphql_query (ORG_QUERY org_name (org_cursor st)) tok))),
              org_has_next_page =
                hasNextPage (pageInfo (graphql_query (ORG_QUERY org_name (org_cursor st)) tok)),
              organization_repos =
                visit_repos (nodes (graphql_query (ORG_QUERY org_name (org_cursor st)) tok))
                  (organization_repos st),
              org_issued = org_issued st @ [ORG_QUERY org_name (org_cursor st)]\<rparr>
      else Some st)"

declare query_org_repos_loop.simps [code]

definition query_org_repos_from_name ::
  "(query \<Rightarrow> string option \<Rightarrow> repo_node connection) \<Rightarrow> string \<Rightarrow> string option
     \<Rightarrow> (string list \<times> query list) option" where
  "query_org_repos_from_name graphql_query org_name tok =
     (case query_org_repos_loop graphql_query org_name tok
             \<lparr>org_cursor = ''null'', org_has_next_page = True, organization_repos = [],
              org_issued = []\<rparr> of
        None \<Rightarrow> None
      | Some st \<Rightarrow> Some (organization_repos st, org_issued st))"

section \<open>The collector: \<^verbatim>\<open>main\<close>\<close>

record options =
  orgs :: "string list"
  repos :: "string list"
  token :: "string option"
  output_file :: string

text \<open>
  What a run has in hand while it works through the repositories: the dataset
  \<^verbatim>\<open>output_data\<close>, the files, and the queries issued so far.
\<close>

record run_state =
  dataset :: output_data
  files :: filesystem
  requests :: "query list"

fun repos_option :: "string list \<Rightarrow> (string, string list) dict \<Rightarrow> (string, string list) dict option" where
  \<comment> \<open>\<^verbatim>\<open>for repo in options.repos\<close>; \<open>None\<close> is the \<^verbatim>\<open>return 1\<close> inside the loop\<close>
  "repos_option [] org_repos = Some org_repos"
| "repos_option (r # rest) org_repos =
     (case split_on CHR ''/'' r of
        [org, repo] \<Rightarrow>
          repos_option rest
            (AList.map_entry org (set_add repo)
               (if map_of org_repos org = None then AList.update org [] org_repos else org_repos))
      | _ \<Rightarrow> None)"

fun orgs_option ::
  "github \<Rightarrow> string option \<Rightarrow> string list \<Rightarrow> (string, string list) dict \<times> query list
     \<Rightarrow> ((string, string list) dict \<times> query list) option" where
  \<comment> \<open>\<^verbatim>\<open>for org in options.orgs\<close>\<close>
  "orgs_option gh tok [] acc = Some acc"
| "orgs_option gh tok (org # rest) (org_repos, qs) =
     (case query_org_repos_from_name (org_repositories gh) org tok of
        None \<Rightarrow> None
      | Some (names, qs') \<Rightarrow>
          orgs_option gh tok rest
            (AList.map_entry org (set_update names)
               (if map_of org_repos org = None then AList.update org [] org_repos else org_repos),
             qs @ qs'))"

definition count_activity ::
  "(author_counts \<Rightarrow> datetime \<Rightarrow> int \<Rightarrow> error + author_counts) \<Rightarrow> 'a date_scheme \<Rightarrow> string
     \<Rightarrow> datetime \<Rightarrow> (string, author_counts) dict \<Rightarrow> error + (string, author_counts) dict" where
  \<comment> \<open>\<^verbatim>\<open>if not x.login in output_data['author_contrib']: ... = AuthorCounts(today)\<close>, then the
      increment by 1 on the author's object, which stays where it is in the dictionary\<close>
  "count_activity increment today l t contrib =
     (case increment (case map_of contrib l of None \<Rightarrow> AuthorCounts today | Some c \<Rightarrow> c) t 1 of
        Inl e \<Rightarrow> Inl e
      | Inr c' \<Rightarrow> Inr (AList.update l c' contrib))"

fun count_reviews ::
  "'a date_scheme \<Rightarrow> review list \<Rightarrow> (string, author_counts) dict \<Rightarrow> error + (string, author_counts) dict" where
  "count_reviews today [] contrib = Inr contrib"
| "count_reviews today (r # rest) contrib =
     (case count_activity increment_reviews today (review_login r) (submitted_at r) contrib of
        Inl e \<Rightarrow> Inl e
      | Inr contrib' \<Rightarrow> count_reviews today rest contrib')"

fun count_pr_comments ::
  "'a date_scheme \<Rightarrow> comment list \<Rightarrow> (string, author_counts) dict \<Rightarrow> error + (string, author_counts) dict" where
  "count_pr_comments today [] contrib = Inr contrib"
| "count_pr_comments today (c # rest) contrib =
     (case count_activity increment_pr_comments today (comment_login c) (comment_created_at c) contrib of
        Inl e \<Rightarrow> Inl e
      | Inr contrib' \<Rightarrow> count_pr_comments today rest contrib')"

fun count_prs ::
  "'a date_scheme \<Rightarrow> (string, pull_request) dict \<Rightarrow> (string, author_counts) dict
     \<Rightarrow> error + (string, author_counts) dict" where
  \<comment> \<open>\<^verbatim>\<open>for pr_id, pr in prs.items()\<close>\<close>
  "count_prs today [] contrib = Inr contrib"
| "count_prs today ((i, pr) # rest) contrib =
     (case count_activity increment_prs today (login pr) (created_at pr) contrib of
        Inl e \<Rightarrow> Inl e
      | Inr c1 \<Rightarrow>
          (case count_reviews today (reviews pr) c1 of
             Inl e \<Rightarrow> Inl e
           | Inr c2 \<Rightarrow>
               (case count_pr_comments today (comments pr) c2 of
                  Inl e \<Rightarrow> Inl e
                | Inr c3 \<Rightarrow> count_prs today rest c3)))"

fun count_issue_comments ::
  "'a date_scheme \<Rightarrow> comment list \<Rightarrow> (string, author_counts) dict \<Rightarrow> error + (string, author_counts) dict" where
  "count_issue_comments today [] contrib = Inr contrib"
| "count_issue_comments today (c # rest) contrib =
     (case count_activity increment_issue_comments today (comment_login c) (comment_created_at c)
             contrib of
        Inl e \<Rightarrow> Inl e
      | Inr contrib' \<Rightarrow> count_issue_comments today rest contrib')"

fun count_issues ::
  "'a date_scheme \<Rightarrow> (string, issue) dict \<Rightarrow> (string, author_counts) dict
     \<Rightarrow> error + (string, author_counts) dict" where
  \<comment> \<open>\<^verbatim>\<open>for issue_id, issue in issues.items()\<close>\<close>
  "count_issues today [] contrib = Inr contrib"
| "count_issues today ((i, x) # rest) contrib =
     (case count_activity increment_issues today (issue_login x) (issue_created_at x) contrib of
        Inl e \<Rightarrow> Inl e
      | Inr c1 \<Rightarrow>
          (case count_issue_comments today (issue_comment_list x) c1 of
             Inl e \<Rightarrow> Inl e
           | Inr c2 \<Rightarrow> count_issues today rest c2))"

definition full_name :: "string \<Rightarrow> string \<Rightarrow> string" where
  \<comment> \<open>\<^verbatim>\<open>'%s/%s' % (org_name, repo_name)\<close>\<close>
  "full_name org_name repo_name = org_name @ ''/'' @ repo_name"

definition resume_date :: "output_data \<Rightarrow> string \<Rightarrow> string" where
  \<comment> \<open>the \<^verbatim>\<open>last_updated\<close> that the two queries of a repository get\<close>
  "resume_date d full_repo_name =
     (if full_repo_name \<notin> set (repos_visited d) then ''2013-01-01'' else last_updated d)"

definition process_repo ::
  "github \<Rightarrow> options \<Rightarrow> date \<Rightarrow> string \<Rightarrow> string \<Rightarrow> run_state \<Rightarrow> (error + run_state) option" where
  \<comment> \<open>the body of \<^verbatim>\<open>for repo_name in repos\<close>\<close>
  "process_repo gh opts today org_name repo_name st =
     (case query_prs (search_prs gh) org_name repo_name (token opts)
             (resume_date (dataset st) (full_name org_name repo_name)) of
        None \<Rightarrow> None
      | Some (Inl e) \<Rightarrow> Some (Inl e)
      | Some (Inr (prs, qs1)) \<Rightarrow>
          (case count_prs today prs (author_contrib (dataset st)) of
             Inl e \<Rightarrow> Some (Inl e)
           | Inr c1 \<Rightarrow>
               (case query_issues (search_issues gh) org_name repo_name (token opts)
                       (resume_date (dataset st) (full_name org_name repo_name)) of
                  None \<Rightarrow> None
                | Some (Inl e) \<Rightarrow> Some (Inl e)
                | Some (Inr (issues, qs2)) \<Rightarrow>
                    (case count_issues today issues c1 of
                       Inl e \<Rightarrow> Some (Inl e)
                     | Inr c2 \<Rightarrow>
                         Some (Inr
                           \<lparr>dataset = (dataset st)
                              \<lparr>repos_visited :=
                                 set_add (full_name org_name repo_name) (repos_visited (dataset st)),
                               author_contrib := c2\<rparr>,
                            files = write_out_data (output_file opts)
                              ((dataset st)
                                 \<lparr>repos_visited :=
                                    set_add (full_name org_name repo_name)
                                      (repos_visited (dataset st)),
                                  author_contrib := c2\<rparr>)
                              (files st),
                            requests = requests st @ qs1 @ qs2\<rparr>)))))"

fun process_repos ::
  "github \<Rightarrow> options \<Rightarrow> date \<Rightarrow> string \<Rightarrow> string list \<Rightarrow> run_state \<Rightarrow> (error + run_state) option" where
  "process_repos gh opts today org_name [] st = Some (Inr st)"
| "process_repos gh opts today org_name (repo_name # rest) st =
     (case process_repo gh opts today org_name repo_name st of
        None \<Rightarrow> None
      | Some (Inl e) \<Rightarrow> Some (Inl e)
      | Some (Inr st') \<Rightarrow> process_repos gh opts today org_name rest st')"

fun process_orgs ::
  "github \<Rightarrow> options \<Rightarrow> date \<Rightarrow> (string, string list) dict \<Rightarrow> run_state
     \<Rightarrow> (error + run_state) option" where
  \<comment> \<open>\<^verbatim>\<open>for org_name, repos in org_repos.items()\<close>\<close>
  "process_orgs gh opts today [] st = Some (Inr st)"
| "process_orgs gh opts today ((org_name, rs) # rest) st =
     (case process_repos gh opts today org_name rs st of
        None \<Rightarrow> None
      | Some (Inl e) \<Rightarrow> Some (Inl e)
      | Some (Inr st') \<Rightarrow> process_orgs gh opts today rest st')"

definition main ::
  "options \<Rightarrow> date \<Rightarrow> github \<Rightarrow> filesystem \<Rightarrow> (error + int \<times> filesystem \<times> query list) option" where
  \<comment> \<open>the value \<^verbatim>\<open>main()\<close> returns, with the files and the queries issued when it returns;
      \<open>today\<close> is \<^verbatim>\<open>datetime.date.today()\<close>\<close>
  "main opts today gh fs =
     (if repos opts = [] \<and> orgs opts = [] then Some (Inr (1, fs, []))
      else
        (case load_existing_data fs (output_file opts) today of
           Inl e \<Rightarrow> Some (Inl e)
         | Inr output_data \<Rightarrow>
             (case repos_option (repos opts) [] of
                None \<Rightarrow> Some (Inr (1, fs, []))
              | Some org_repos \<Rightarrow>
                  (case orgs_option gh (token opts) (orgs opts) (org_repos, []) of
                     None \<Rightarrow> None
                   | Some (org_repos, qs) \<Rightarrow>
                       (case process_orgs gh opts today org_repos
                               \<lparr>dataset = output_data, files = fs, requests = qs\<rparr> of
                          None \<Rightarrow> None
                        | Some (Inl e) \<Rightarrow> Some (Inl e)
                        | Some (Inr st) \<Rightarrow>
                            Some (Inr (0,
                              write_out_data (output_file opts)
                                ((dataset st)\<lparr>last_updated := strftime_Ymd today\<rparr>) (files st),
                              requests st)))))))"

definition exit_status :: "(error + int \<times> filesystem \<times> query list) option \<Rightarrow> int option" where
  \<comment> \<open>\<^verbatim>\<open>sys.exit(main())\<close>: the interpreter ends with status 1 on an exception that nothing
      catches\<close>
  "exit_status r =
     (case r of
        None \<Rightarrow> None
      | Some (Inl e) \<Rightarrow> Some 1
      | Some (Inr (c, fs, qs)) \<Rightarrow> Some c)"

section \<open>The renderer\<close>

record graph_options =
  authors :: "string list"
  anonymize :: bool
  since :: date
  input_file :: string

text \<open>One call of \<^verbatim>\<open>plt.plot(keys, values, label=munged_author)\<close>.\<close>

record plot =
  plot_x :: "string list"
  plot_y :: "int list"
  plot_label :: string

definition add_to_month :: "string \<Rightarrow> int \<Rightarrow> (string, int) dict \<Rightarrow> (string, int) dict" where
  \<comment> \<open>\<^verbatim>\<open>if not month in d: d[month] = 0\<close>, then \<^verbatim>\<open>d[month] += activity\<close>\<close>
  "add_to_month k a d = AList.update k ((case map_of d k of None \<Rightarrow> 0 | Some v \<Rightarrow> v) + a) d"

fun add_counter ::
  "date \<Rightarrow> (string, int) dict \<Rightarrow> (string, int) dict \<times> (string, int) dict
     \<Rightarrow> error + (string, int) dict \<times> (string, int) dict" where
  \<comment> \<open>one of the five loops over a counter of the author, on \<^verbatim>\<open>total_contributions\<close> and
      \<^verbatim>\<open>overall_contributions\<close>\<close>
  "add_counter start [] (totals, overall) = Inr (totals, overall)"
| "add_counter start ((k, activity) # rest) (totals, overall) =
     (case IsoDate k of
        Inl e \<Rightarrow> Inl e
      | Inr d \<Rightarrow>
          if date_less d start then add_counter start rest (totals, overall)
          else add_counter start rest (add_to_month k activity totals, add_to_month k activity overall))"

definition author_totals ::
  "date \<Rightarrow> author_counts \<Rightarrow> (string, int) dict
     \<Rightarrow> error + (string, int) dict \<times> (string, int) dict" where
  "author_totals start contrib overall =
     (case add_counter start (prs_by_month contrib) ([], overall) of
        Inl e \<Rightarrow> Inl e
      | Inr a1 \<Rightarrow>
     (case add_counter start (reviews_by_month contrib) a1 of
        Inl e \<Rightarrow> Inl e
      | Inr a2 \<Rightarrow>
     (case add_counter start (pr_comments_by_month contrib) a2 of
        Inl e \<Rightarrow> Inl e
      | Inr a3 \<Rightarrow>
     (case add_counter start (issues_by_month contrib) a3 of
        Inl e \<Rightarrow> Inl e
      | Inr a4 \<Rightarrow> add_counter start (issue_comments_by_month contrib) a4))))"

fun graph_authors ::
  "graph_options \<Rightarrow> (string, author_counts) dict \<Rightarrow> int \<times> (string, int) dict \<times> plot list
     \<Rightarrow> error + int \<times> (string, int) dict \<times> plot list" where
  \<comment> \<open>\<^verbatim>\<open>for author, contrib in author_contrib.items()\<close>, on \<^verbatim>\<open>author_number\<close>,
      \<^verbatim>\<open>overall_contributions\<close> and the plots drawn so far\<close>
  "graph_authors opts [] acc = Inr acc"
| "graph_authors opts ((author, contrib) # rest) (author_number, overall, plots) =
     (if authors opts \<noteq> [] \<and> author \<notin> set (authors opts)
      then graph_authors opts rest (author_number, overall, plots)
      else
        (case author_totals (since opts) contrib overall of
           Inl e \<Rightarrow> Inl e
         | Inr (totals, overall') \<Rightarrow>
             graph_authors opts rest
               (author_number + 1, overall',
                plots @ [\<lparr>plot_x = map fst totals, plot_y = map snd totals,
                          plot_label = (if anonymize opts
                                        then ''Developer '' @ str_int author_number
                                        else author)\<rparr>])))"

definition graph_main :: "graph_options \<Rightarrow> filesystem \<Rightarrow> error + plot list \<times> (string, int) dict" where
  \<comment> \<open>the renderer's \<^verbatim>\<open>main\<close> up to the trend line: the series it plots, and
      \<^verbatim>\<open>overall_contributions\<close>, which the numerical fit is computed from\<close>
  "graph_main opts fs =
     (case fs (input_file opts) of
        None \<Rightarrow> Inl (FileNotFoundError (input_file opts))
      | Some output_data \<Rightarrow>
          (case graph_authors opts (file_author_contrib output_data) (1, [], []) of
             Inl e \<Rightarrow> Inl e
           | Inr (author_number, overall, plots) \<Rightarrow> Inr (plots, overall)))"

section \<open>Formatting and parsing a month key\<close>

text \<open>
  A month key written by \<^verbatim>\<open>'%d-%02d'\<close> for a year of four digits is read back by
  \<^verbatim>\<open>strptime(..., '%Y-%m')\<close> as the same year and month.
\<close>

lemma digit_cases:
  assumes "d < (10::nat)"
  obtains "d = 0" | "d = 1" | "d = 2" | "d = 3" | "d = 4" | "d = 5" | "d = 6" | "d = 7" | "d = 8" | "d = 9"
  using assms by atomize_elim arith

lemma digit_val_digit: "d < 10 \<Longrightarrow> digit_val (digit_chars ! d) = int d"
  by (erule digit_cases) (simp_all add: digit_val_def digit_chars_def)

lemma digit_in_digits: "d < 10 \<Longrightarrow> digit_chars ! d \<in> set digit_chars"
  by (erule digit_cases) (simp_all add: digit_chars_def)

lemma digit_not_space: "c \<in> set digit_chars \<Longrightarrow> c \<noteq> CHR '' ''"
  by (auto simp: digit_chars_def)

lemma str_nat_1: "n < 10 \<Longrightarrow> str_nat n = [digit_chars ! n]"
  by (subst str_nat.simps) simp

lemma str_nat_2:
  assumes "10 \<le> n" "n < 100"
  shows "str_nat n = [digit_chars ! (n div 10), digit_chars ! (n mod 10)]"
proof -
  have "n div 10 < 10" "\<not> n < 10" using assms by arith+
  then show ?thesis by (subst str_nat.simps) (simp add: str_nat_1)
qed

lemma str_nat_4:
  assumes "1000 \<le> n" "n \<le> 9999"
  shows "str_nat n = [digit_chars ! (n div 1000), digit_chars ! (n div 100 mod 10),
                      digit_chars ! (n div 10 mod 10), digit_chars ! (n mod 10)]"
proof -
  have lt: "n div 1000 < 10" "\<not> n div 100 < 10" "\<not> n div 10 < 10" "\<not> n < 10"
    using assms by arith+
  have dd: "n div 100 div 10 = n div 1000" "n div 10 div 10 = n div 100"
    by (simp_all add: div_mult2_eq[symmetric])
  have a: "str_nat (n div 1000) = [digit_chars ! (n div 1000)]"
    using lt by (subst str_nat.simps) simp
  have b: "str_nat (n div 100) = str_nat (n div 1000) @ [digit_chars ! (n div 100 mod 10)]"
    using lt dd by (subst str_nat.simps) simp
  have c: "str_nat (n div 10) = str_nat (n div 100) @ [digit_chars ! (n div 10 mod 10)]"
    using lt dd by (subst str_nat.simps) simp
  have d: "str_nat n = str_nat (n div 10) @ [digit_chars ! (n mod 10)]"
    using lt by (subst str_nat.simps) simp
  show ?thesis by (simp add: a b c d)
qed

lemma digits_str_nat: "set (str_nat n) \<subseteq> set digit_chars"
proof (induction n rule: str_nat.induct)
  case (1 n)
  show ?case
  proof (cases "n < 10")
    case True
    then show ?thesis by (subst str_nat.simps) (simp add: digit_in_digits)
  next
    case False
    then show ?thesis using 1 by (subst str_nat.simps) (simp add: digit_in_digits)
  qed
qed

lemma digits_value_str_nat: "foldl (\<lambda>acc c. 10 * acc + digit_val c) 0 (str_nat n) = int n"
proof (induction n rule: str_nat.induct)
  case (1 n)
  show ?case
  proof (cases "n < 10")
    case True
    then show ?thesis by (subst str_nat.simps) (simp add: digit_val_digit)
  next
    case False
    have "10 * int (n div 10) + int (n mod 10) = int n" by presburger
    then show ?thesis using False 1 by (subst str_nat.simps) (simp add: digit_val_digit)
  qed
qed

lemma dropWhile_space_digits: "set s \<subseteq> set digit_chars \<Longrightarrow> dropWhile (\<lambda>c. c = CHR '' '') s = s"
  by (cases s) (auto simp: digit_not_space)

lemma int_of_str_str_nat: "int_of_str (str_nat n) = int n"
  by (simp add: int_of_str_def dropWhile_space_digits digits_str_nat digits_value_str_nat)

lemma inj_str_nat:
  assumes "str_nat a = str_nat b"
  shows "a = b"
proof -
  have "int_of_str (str_nat a) = int_of_str (str_nat b)" by (simp only: assms)
  then have "int a = int b" by (simp only: int_of_str_str_nat)
  then show ?thesis by simp
qed

lemma month_cases:
  assumes "1 \<le> m" "m \<le> (12::int)"
  obtains "m = 1" | "m = 2" | "m = 3" | "m = 4" | "m = 5" | "m = 6" | "m = 7" | "m = 8" | "m = 9" | "m = 10" | "m = 11" | "m = 12"
  using assms by atomize_elim arith

lemma rmatch_month:
  assumes "1 \<le> m" "m \<le> 12"
  shows "rmatch re_m (fmt_02d m) (\<lambda>m s. Some (Y, m, s)) = Some (Y, fmt_02d m, [])"
  using assms
proof (cases rule: month_cases)
qed (simp_all add: fmt_02d_def str_int_def str_nat_1 str_nat_2 digit_chars_def re_m_def re_nonzero_def)

lemma int_of_str_month:
  assumes "1 \<le> m" "m \<le> 12"
  shows "int_of_str (fmt_02d m) = m"
  using assms
proof (cases rule: month_cases)
qed (simp_all add: fmt_02d_def str_int_def str_nat_1 str_nat_2 digit_chars_def int_of_str_def digit_val_def)

lemma rmatch_year:
  assumes "a \<in> set digit_chars" "b \<in> set digit_chars" "c \<in> set digit_chars" "d \<in> set digit_chars"
  shows "rmatch re_Y (a # b # c # d # rest) k = k [a, b, c, d] rest"
  using assms by (simp add: re_Y_def re_digit_def)

lemma IsoDate_month_key:
  assumes "1000 \<le> y" "y \<le> 9999" "1 \<le> m" "m \<le> 12"
  shows "IsoDate (month_key y m) = Inr \<lparr>year = y, month = m, day = 1\<rparr>"
proof -
  define n where "n = nat y"
  have n: "1000 \<le> n" "n \<le> 9999" "y = int n" using assms by (simp_all add: n_def)
  have sy: "str_int y = str_nat n" using n by (simp add: str_int_def)
  obtain a b c d where abcd: "str_nat n = [a, b, c, d]" using str_nat_4[OF n(1,2)] by blast
  have dig: "a \<in> set digit_chars" "b \<in> set digit_chars" "c \<in> set digit_chars" "d \<in> set digit_chars"
    using digits_str_nat[of n] by (simp_all add: abcd)
  have "regex_Ym (month_key y m) = Some (str_nat n, fmt_02d m, [])"
    using assms(3,4) by (simp add: regex_Ym_def month_key_def sy abcd rmatch_year[OF dig] rmatch_month)
  then show ?thesis
    using assms(3,4) n by (simp add: IsoDate_def int_of_str_str_nat int_of_str_month)
qed

section \<open>Adding counts into a dictionary of months\<close>

text \<open>
  \<open>add_months kvs d\<close> is the dictionary \<open>d\<close> after \<^verbatim>\<open>d[k] += a\<close> for the items \<open>(k, a)\<close> of \<open>kvs\<close>
  in turn, a key that is missing counting as 0.
\<close>

definition add_months :: "(string, int) dict \<Rightarrow> (string, int) dict \<Rightarrow> (string, int) dict" where
  "add_months kvs d = foldl (\<lambda>d (k, a). add_to_month k a d) d kvs"

lemma add_months_append: "add_months (xs @ ys) d = add_months ys (add_months xs d)"
  by (simp add: add_months_def)

lemma add_months_Cons: "add_months ((k, a) # kvs) d = add_months kvs (add_to_month k a d)"
  by (simp add: add_months_def)

lemma map_of_add_to_month:
  "map_of (add_to_month k a d) k' =
     (if k' = k then Some ((case map_of d k of None \<Rightarrow> 0 | Some v \<Rightarrow> v) + a) else map_of d k')"
  by (simp add: add_to_month_def update_conv')

lemma filter_key_notin: "k \<notin> fst ` set kvs \<Longrightarrow> filter (\<lambda>p. fst p = k) kvs = []"
  by (induction kvs) auto

lemma filter_key_filter:
  "filter (\<lambda>p. fst p = k) (filter (\<lambda>p. P (fst p)) xs) = (if P k then filter (\<lambda>p. fst p = k) xs else [])"
  by (induction xs) auto

lemma map_of_add_months:
  "map_of (add_months kvs d) k =
     (if k \<in> fst ` set kvs
      then Some ((case map_of d k of None \<Rightarrow> 0 | Some v \<Rightarrow> v)
                 + sum_list (map snd (filter (\<lambda>p. fst p = k) kvs)))
      else map_of d k)"
proof (induction kvs arbitrary: d)
  case Nil
  show ?case by (simp add: add_months_def)
next
  case (Cons p kvs)
  obtain k' a' where p: "p = (k', a')" by (cases p)
  show ?case
  proof (cases "k' = k")
    case True
    then show ?thesis
      by (simp add: p add_months_Cons Cons.IH map_of_add_to_month filter_key_notin)
  next
    case False
    then show ?thesis
      by (simp add: p add_months_Cons Cons.IH map_of_add_to_month)
  qed
qed

section \<open>The month keys of \<^verbatim>\<open>AuthorCounts\<close>\<close>

text \<open>
  \<open>window_keys today\<close> lists the keys that \<^verbatim>\<open>AuthorCounts(today)\<close> assigns, in the order of its
  loops, and \<open>zero_keys\<close> is the dictionary each counter ends as.
\<close>

definition zero_keys :: "string list \<Rightarrow> (string, int) dict \<Rightarrow> (string, int) dict" where
  "zero_keys ks d = foldl (\<lambda>d k. AList.update k 0 d) d ks"

definition window_keys :: "'a date_scheme \<Rightarrow> string list" where
  "window_keys today =
     concat (map (\<lambda>y. map (month_key y) [1..12]) [2013..year today - 1])
     @ map (month_key (year today)) [1..month today]"

lemma zero_keys_append: "zero_keys (xs @ ys) d = zero_keys ys (zero_keys xs d)"
  by (simp add: zero_keys_def)

lemma map_of_zero_keys: "map_of (zero_keys ks d) k = (if k \<in> set ks then Some 0 else map_of d k)"
  unfolding zero_keys_def
  by (induction ks arbitrary: d) (auto simp: update_conv')

lemma foldl_zero_month:
  "foldl (\<lambda>self m. zero_month (f m) self)
     \<lparr>prs_by_month = a, reviews_by_month = b, pr_comments_by_month = c,
      issues_by_month = d, issue_comments_by_month = e\<rparr> ms
   = \<lparr>prs_by_month = zero_keys (map f ms) a, reviews_by_month = zero_keys (map f ms) b,
      pr_comments_by_month = zero_keys (map f ms) c, issues_by_month = zero_keys (map f ms) d,
      issue_comments_by_month = zero_keys (map f ms) e\<rparr>"
  by (induction ms arbitrary: a b c d e) (simp_all add: zero_keys_def zero_month_def)

lemma foldl_zero_years:
  "foldl (\<lambda>self y. foldl (\<lambda>self m. zero_month (month_key y m) self) self ms)
     \<lparr>prs_by_month = a, reviews_by_month = b, pr_comments_by_month = c,
      issues_by_month = d, issue_comments_by_month = e\<rparr> ys
   = \<lparr>prs_by_month = zero_keys (concat (map (\<lambda>y. map (month_key y) ms) ys)) a,
      reviews_by_month = zero_keys (concat (map (\<lambda>y. map (month_key y) ms) ys)) b,
      pr_comments_by_month = zero_keys (concat (map (\<lambda>y. map (month_key y) ms) ys)) c,
      issues_by_month = zero_keys (concat (map (\<lambda>y. map (month_key y) ms) ys)) d,
      issue_comments_by_month = zero_keys (concat (map (\<lambda>y. map (month_key y) ms) ys)) e\<rparr>"
proof (induction ys arbitrary: a b c d e)
  case Nil
  show ?case by (simp add: zero_keys_def)
next
  case (Cons y ys)
  show ?case by (simp add: foldl_zero_month Cons zero_keys_append)
qed

lemma AuthorCounts_eq:
  "AuthorCounts today =
     \<lparr>prs_by_month = zero_keys (window_keys today) [],
      reviews_by_month = zero_keys (window_keys today) [],
      pr_comments_by_month = zero_keys (window_keys today) [],
      issues_by_month = zero_keys (window_keys today) [],
      issue_comments_by_month = zero_keys (window_keys today) []\<rparr>"
  by (simp add: AuthorCounts_def Let_def foldl_zero_years foldl_zero_month window_keys_def
       zero_keys_append)

lemma in_window_keys:
  assumes "2013 \<le> y" "1 \<le> m" "m \<le> 12" "y < year today \<or> (y = year today \<and> m \<le> month today)"
  shows "month_key y m \<in> set (window_keys today)"
proof (cases "y < year today")
  case True
  then have "y \<in> set [2013..year today - 1]" and "m \<in> set [1..12]" using assms by auto
  then have "month_key y m \<in> set (concat (map (\<lambda>y. map (month_key y) [1..12]) [2013..year today - 1]))"
    by (auto simp del: set_upto)
  then show ?thesis by (simp add: window_keys_def)
next
  case False
  then have "y = year today" "m \<in> set [1..month today]" using assms by auto
  then show ?thesis by (simp add: window_keys_def)
qed

text \<open>
  Claim C6. A fresh \<^verbatim>\<open>AuthorCounts(today)\<close> holds the value 0 under the key of every month
  from 2013-01 through the month of \<open>today\<close>, in each of its five counters, and each of the
  five increments with a date \<open>d\<close> of such a month returns (no \<^verbatim>\<open>KeyError\<close>), with the
  activity stored under that month.
\<close>

theorem AuthorCounts_window:
  assumes "2013 \<le> y" and "1 \<le> m" and "m \<le> 12"
    and "y < year today \<or> (y = year today \<and> m \<le> month today)"
    and "year d = y" and "month d = m"
  shows "map_of (prs_by_month (AuthorCounts today)) (month_key y m) = Some 0
       \<and> map_of (reviews_by_month (AuthorCounts today)) (month_key y m) = Some 0
       \<and> map_of (pr_comments_by_month (AuthorCounts today)) (month_key y m) = Some 0
       \<and> map_of (issues_by_month (AuthorCounts today)) (month_key y m) = Some 0
       \<and> map_of (issue_comments_by_month (AuthorCounts today)) (month_key y m) = Some 0
       \<and> increment_prs (AuthorCounts today) d a =
           Inr ((AuthorCounts today)\<lparr>prs_by_month :=
                  AList.update (month_key y m) a (prs_by_month (AuthorCounts today))\<rparr>)
       \<and> increment_reviews (AuthorCounts today) d a =
           Inr ((AuthorCounts today)\<lparr>reviews_by_month :=
                  AList.update (month_key y m) a (reviews_by_month (AuthorCounts today))\<rparr>)
       \<and> increment_pr_comments (AuthorCounts today) d a =
           Inr ((AuthorCounts today)\<lparr>pr_comments_by_month :=
                  AList.update (month_key y m) a (pr_comments_by_month (AuthorCounts today))\<rparr>)
       \<and> increment_issues (AuthorCounts today) d a =
           Inr ((AuthorCounts today)\<lparr>issues_by_month :=
                  AList.update (month_key y m) a (issues_by_month (AuthorCounts today))\<rparr>)
       \<and> increment_issue_comments (AuthorCounts today) d a =
           Inr ((AuthorCounts today)\<lparr>issue_comments_by_month :=
                  AList.update (month_key y m) a (issue_comments_by_month (AuthorCounts today))\<rparr>)"
proof -
  have k: "month_key y m \<in> set (window_keys today)"
    using assms(1-4) by (rule in_window_keys)
  have z: "map_of (zero_keys (window_keys today) []) (month_key y m) = Some 0"
    using k by (simp add: map_of_zero_keys)
  show ?thesis
    using z assms(5,6)
    by (simp add: AuthorCounts_eq increment_prs_def increment_reviews_def
          increment_pr_comments_def increment_issues_def increment_issue_comments_def
          dict_add_def)
qed

lemma month_key_2023_7: "month_key 2023 7 = ''2023-07''"
  by code_simp

theorem AuthorCounts_window_witness:
  "map_of (prs_by_month (AuthorCounts \<lparr>year = 2024, month = 3, day = 15\<rparr>)) ''2023-07'' = Some 0
   \<and> increment_reviews (AuthorCounts \<lparr>year = 2024, month = 3, day = 15\<rparr>)
        \<lparr>year = 2023, month = 7, day = 4, hour = 9, minute = 0, second = 0\<rparr> 1 =
      Inr ((AuthorCounts \<lparr>year = 2024, month = 3, day = 15\<rparr>)\<lparr>reviews_by_month :=
             AList.update ''2023-07'' 1
               (reviews_by_month (AuthorCounts \<lparr>year = 2024, month = 3, day = 15\<rparr>))\<rparr>)"
  using AuthorCounts_window [of 2023 7 "\<lparr>year = 2024, month = 3, day = 15\<rparr>"
          "\<lparr>year = 2023, month = 7, day = 4, hour = 9, minute = 0, second = 0\<rparr>" 1]
  by (simp add: month_key_2023_7)

section \<open>Loading a persisted dataset and writing it back\<close>

text \<open>
  \<open>loaded today c\<close> is the \<^verbatim>\<open>AuthorCounts\<close> that the five loops build from the stored counts
  \<open>c\<close>. A stored counter is as the collector writes it when its keys are distinct keys of
  the months that \<^verbatim>\<open>AuthorCounts(today)\<close> holds.
\<close>

definition loaded :: "'a date_scheme \<Rightarrow> author_counts \<Rightarrow> author_counts" where
  "loaded today c =
     \<lparr>prs_by_month = add_months (prs_by_month c) (zero_keys (window_keys today) []),
      reviews_by_month = add_months (reviews_by_month c) (zero_keys (window_keys today) []),
      pr_comments_by_month = add_months (pr_comments_by_month c) (zero_keys (window_keys today) []),
      issues_by_month = add_months (issues_by_month c) (zero_keys (window_keys today) []),
      issue_comments_by_month = add_months (issue_comments_by_month c) (zero_keys (window_keys today) [])\<rparr>"

definition persisted_counter :: "'a date_scheme \<Rightarrow> (string, int) dict \<Rightarrow> bool" where
  "persisted_counter today d = (distinct (map fst d) \<and> set (map fst d) \<subseteq> set (window_keys today))"

definition persisted_counts :: "'a date_scheme \<Rightarrow> author_counts \<Rightarrow> bool" where
  "persisted_counts today c =
     (persisted_counter today (prs_by_month c) \<and> persisted_counter today (reviews_by_month c)
      \<and> persisted_counter today (pr_comments_by_month c) \<and> persisted_counter today (issues_by_month c)
      \<and> persisted_counter today (issue_comments_by_month c))"

lemma window_key_IsoDate:
  assumes "1000 \<le> year today" "year today \<le> 9999" "month today \<le> 12"
    and "k \<in> set (window_keys today)"
  shows "\<exists>d. IsoDate k = Inr d \<and> month_key (year d) (month d) = k"
proof -
  from assms(4) obtain y m where k: "k = month_key y m" and "1000 \<le> y" "y \<le> 9999" "1 \<le> m" "m \<le> 12"
    using assms(1-3) by (auto simp: window_keys_def)
  then show ?thesis using IsoDate_month_key[of y m] by simp
qed

lemma map_of_add_months_distinct:
  "distinct (map fst kvs) \<Longrightarrow>
   map_of (add_months kvs d) k =
     (case map_of kvs k of None \<Rightarrow> map_of d k
      | Some a \<Rightarrow> Some ((case map_of d k of None \<Rightarrow> 0 | Some v \<Rightarrow> v) + a))"
proof (induction kvs arbitrary: d)
  case Nil
  show ?case by (simp add: add_months_def)
next
  case (Cons p kvs)
  obtain k' a' where p: "p = (k', a')" by (cases p)
  have nk: "map_of kvs k' = None" using Cons.prems p by (simp add: map_of_eq_None_iff)
  show ?case using Cons.prems nk
    by (simp add: p Cons.IH add_months_Cons map_of_add_to_month split: option.splits)
qed

lemma load_counter_ok:
  assumes inc: "\<And>self d a. inc self (d::date) a =
             (case dict_add (month_key (year d) (month d)) a (get self) of
                Inl e \<Rightarrow> Inl e | Inr x \<Rightarrow> Inr (put x self))"
    and get_put: "\<And>x s. get (put x s) = x"
    and put_put: "\<And>x y s. put x (put y s) = put x s"
    and put_get: "\<And>s. put (get s) s = s"
    and yr: "1000 \<le> year today" "year today \<le> 9999" "month today \<le> 12"
  shows "set (map fst kvs) \<subseteq> set (window_keys today) \<Longrightarrow>
         set (window_keys today) \<subseteq> fst ` set (get self) \<Longrightarrow>
         load_counter inc kvs self = Inr (put (add_months kvs (get self)) self)"
proof (induction kvs arbitrary: self)
  case Nil
  show ?case by (simp add: add_months_def put_get)
next
  case (Cons p kvs)
  obtain k a where p: "p = (k, a)" by (cases p)
  have kw: "k \<in> set (window_keys today)" using Cons.prems(1) p by simp
  obtain d where d: "IsoDate k = Inr d" "month_key (year d) (month d) = k"
    using window_key_IsoDate[OF yr kw] by blast
  have "k \<in> fst ` set (get self)" using kw Cons.prems(2) by blast
  then obtain v where v: "map_of (get self) k = Some v"
    by (metis map_of_eq_None_iff not_Some_eq)
  define self' where "self' = put (AList.update k (v + a) (get self)) self"
  have step: "inc self d a = Inr self'"
    by (simp add: inc d dict_add_def v self'_def)
  have g': "get self' = AList.update k (v + a) (get self)" by (simp add: self'_def get_put)
  have "set (map fst kvs) \<subseteq> set (window_keys today)" using Cons.prems(1) by simp
  moreover have "set (window_keys today) \<subseteq> fst ` set (get self')"
    using Cons.prems(2) by (auto simp: g' dom_update)
  ultimately have IH: "load_counter inc kvs self' = Inr (put (add_months kvs (get self')) self')"
    by (rule Cons.IH)
  have "add_months (p # kvs) (get self) = add_months kvs (get self')"
    by (simp add: add_months_Cons add_to_month_def p g' v)
  then show ?case
    by (simp add: p d step IH) (simp add: self'_def put_put)
qed


lemma dom_zero_keys: "set ks \<subseteq> fst ` set (zero_keys ks d)"
proof
  fix k assume "k \<in> set ks"
  then have "map_of (zero_keys ks d) k = Some 0" by (simp add: map_of_zero_keys)
  then show "k \<in> fst ` set (zero_keys ks d)" by (metis map_of_eq_None_iff option.distinct(1))
qed

lemma load_author_ok:
  assumes yr: "1000 \<le> year today" "year today \<le> 9999" "month today \<le> 12"
    and pc: "persisted_counts today c"
  shows "load_author today c = Inr (loaded today c)"
proof -
  let ?Z = "zero_keys (window_keys today) []"
  have full: "set (window_keys today) \<subseteq> fst ` set ?Z" by (rule dom_zero_keys)
  have k: "set (map fst (prs_by_month c)) \<subseteq> set (window_keys today)"
    "set (map fst (reviews_by_month c)) \<subseteq> set (window_keys today)"
    "set (map fst (pr_comments_by_month c)) \<subseteq> set (window_keys today)"
    "set (map fst (issues_by_month c)) \<subseteq> set (window_keys today)"
    "set (map fst (issue_comments_by_month c)) \<subseteq> set (window_keys today)"
    using pc by (simp_all add: persisted_counts_def persisted_counter_def)
  have l1: "load_counter increment_prs kvs self =
              Inr (self\<lparr>prs_by_month := add_months kvs (prs_by_month self)\<rparr>)"
    if "set (map fst kvs) \<subseteq> set (window_keys today)"
      "set (window_keys today) \<subseteq> fst ` set (prs_by_month self)" for kvs self
    by (rule load_counter_ok[where get = prs_by_month and put = "\<lambda>x s. s\<lparr>prs_by_month := x\<rparr>",
          OF _ _ _ _ yr that]) (simp_all add: increment_prs_def)
  have l2: "load_counter increment_reviews kvs self =
              Inr (self\<lparr>reviews_by_month := add_months kvs (reviews_by_month self)\<rparr>)"
    if "set (map fst kvs) \<subseteq> set (window_keys today)"
      "set (window_keys today) \<subseteq> fst ` set (reviews_by_month self)" for kvs self
    by (rule load_counter_ok[where get = reviews_by_month and put = "\<lambda>x s. s\<lparr>reviews_by_month := x\<rparr>",
          OF _ _ _ _ yr that]) (simp_all add: increment_reviews_def)
  have l3: "load_counter increment_pr_comments kvs self =
              Inr (self\<lparr>pr_comments_by_month := add_months kvs (pr_comments_by_month self)\<rparr>)"
    if "set (map fst kvs) \<subseteq> set (window_keys today)"
      "set (window_keys today) \<subseteq> fst ` set (pr_comments_by_month self)" for kvs self
    by (rule load_counter_ok[where get = pr_comments_by_month
          and put = "\<lambda>x s. s\<lparr>pr_comments_by_month := x\<rparr>", OF _ _ _ _ yr that])
       (simp_all add: increment_pr_comments_def)
  have l4: "load_counter increment_issues kvs self =
              Inr (self\<lparr>issues_by_month := add_months kvs (issues_by_month self)\<rparr>)"
    if "set (map fst kvs) \<subseteq> set (window_keys today)"
      "set (window_keys today) \<subseteq> fst ` set (issues_by_month self)" for kvs self
    by (rule load_counter_ok[where get = issues_by_month and put = "\<lambda>x s. s\<lparr>issues_by_month := x\<rparr>",
          OF _ _ _ _ yr that]) (simp_all add: increment_issues_def)
  have l5: "load_counter increment_issue_comments kvs self =
              Inr (self\<lparr>issue_comments_by_month := add_months kvs (issue_comments_by_month self)\<rparr>)"
    if "set (map fst kvs) \<subseteq> set (window_keys today)"
      "set (window_keys today) \<subseteq> fst ` set (issue_comments_by_month self)" for kvs self
    by (rule load_counter_ok[where get = issue_comments_by_month
          and put = "\<lambda>x s. s\<lparr>issue_comments_by_month := x\<rparr>", OF _ _ _ _ yr that])
       (simp_all add: increment_issue_comments_def)
  show ?thesis
    using k full
    by (simp add: load_author_def AuthorCounts_eq l1 l2 l3 l4 l5 loaded_def)
qed

lemma load_authors_ok:
  assumes yr: "1000 \<le> year today" "year today \<le> 9999" "month today \<le> 12"
  shows "(\<forall>(author, c) \<in> set acs. persisted_counts today c) \<Longrightarrow>
         load_authors today acs contrib =
           Inr (foldl (\<lambda>contrib (author, c). AList.update author (loaded today c) contrib) contrib acs)"
proof (induction acs arbitrary: contrib)
  case Nil
  show ?case by simp
next
  case (Cons p acs)
  obtain author c where p: "p = (author, c)" by (cases p)
  have "persisted_counts today c" using Cons.prems p by simp
  then have "load_author today c = Inr (loaded today c)" by (rule load_author_ok[OF yr])
  moreover have "\<forall>(author, c) \<in> set acs. persisted_counts today c" using Cons.prems by simp
  ultimately show ?case by (simp add: p Cons.IH)
qed

lemma foldl_update_distinct:
  "distinct (map fst al @ map fst acs) \<Longrightarrow>
   foldl (\<lambda>contrib (author, c). AList.update author (f c) contrib) al acs
     = al @ map (\<lambda>(author, c). (author, f c)) acs"
proof (induction acs arbitrary: al)
  case Nil
  show ?case by simp
next
  case (Cons p acs)
  obtain author c where p: "p = (author, c)" by (cases p)
  have notin: "author \<notin> fst ` set al" using Cons.prems p by auto
  have upd: "AList.update author (f c) al = al @ [(author, f c)]"
    using notin by (induction al) auto
  have "distinct (map fst (al @ [(author, f c)]) @ map fst acs)" using Cons.prems p by auto
  then show ?case using Cons.IH[of "al @ [(author, f c)]"] by (simp add: p upd)
qed

lemma set_set_update: "set (set_update xs s) = set s \<union> set xs"
  unfolding set_update_def
  by (induction xs arbitrary: s) (auto simp: set_add_def)

lemma set_set_of_list: "set (set_of_list xs) = set xs"
  by (simp add: set_of_list_def set_set_update)

lemma load_existing_data_ok:
  assumes "fs filename = Some f"
    and yr: "1000 \<le> year today" "year today \<le> 9999" "month today \<le> 12"
    and "distinct (map fst (file_author_contrib f))"
    and "\<forall>(author, c) \<in> set (file_author_contrib f). persisted_counts today c"
  shows "load_existing_data fs filename today =
           Inr \<lparr>last_updated = file_last_updated f,
                repos_visited = set_of_list (file_repos_visited f),
                author_contrib = map (\<lambda>(author, c). (author, loaded today c)) (file_author_contrib f)\<rparr>"
  using assms(1,5) foldl_update_distinct[of "[]" "file_author_contrib f" "loaded today"]
  by (simp add: load_existing_data_def load_authors_ok[OF yr assms(6)])

definition same_counter :: "(string, int) dict \<Rightarrow> (string, int) dict \<Rightarrow> bool" where
  "same_counter d d' =
     (\<forall>k n. (map_of d k = Some n \<longrightarrow> map_of d' k = Some n)
          \<and> (map_of d' k = Some n \<longrightarrow> map_of d k = Some n \<or> (map_of d k = None \<and> n = 0)))"

definition same_counts :: "author_counts \<Rightarrow> author_counts \<Rightarrow> bool" where
  "same_counts c c' =
     (same_counter (prs_by_month c) (prs_by_month c')
      \<and> same_counter (reviews_by_month c) (reviews_by_month c')
      \<and> same_counter (pr_comments_by_month c) (pr_comments_by_month c')
      \<and> same_counter (issues_by_month c) (issues_by_month c')
      \<and> same_counter (issue_comments_by_month c) (issue_comments_by_month c'))"

lemma same_counter_add_months:
  assumes "persisted_counter today d"
  shows "same_counter d (add_months d (zero_keys (window_keys today) []))"
proof -
  have dist: "distinct (map fst d)" and sub: "set (map fst d) \<subseteq> set (window_keys today)"
    using assms by (simp_all add: persisted_counter_def)
  have inw: "k \<in> set (window_keys today)" if "map_of d k = Some n" for k n
  proof -
    have "(k, n) \<in> set d" using that by (rule map_of_SomeD)
    then have "k \<in> set (map fst d)" by force
    then show ?thesis using sub by blast
  qed
  show ?thesis
    unfolding same_counter_def
    using inw by (auto simp: map_of_add_months_distinct[OF dist] map_of_zero_keys split: option.splits if_splits)
qed

lemma same_counts_loaded: "persisted_counts today c \<Longrightarrow> same_counts c (loaded today c)"
  by (simp add: same_counts_def loaded_def persisted_counts_def same_counter_add_months)

text \<open>
  Claim C7. Let the file hold a dataset as the collector writes it (authors listed once,
  every counter with distinct keys among the months of \<^verbatim>\<open>AuthorCounts(today)\<close>), and let the
  year of the run date have four digits. Then \<^verbatim>\<open>load_existing_data\<close> returns, and
  \<^verbatim>\<open>write_out_data\<close> of what it returns stores a document with the same \<^verbatim>\<open>last_updated\<close>,
  the same set \<^verbatim>\<open>repos_visited\<close>, the same authors in the same order and, for every author
  and each of the five counters, the same count under every month key of the original;
  a month key that the original does not have has the count 0.
\<close>

theorem load_then_write_keeps_counts:
  assumes "fs filename = Some f"
    and "1000 \<le> year today" and "year today \<le> 9999" and "month today \<le> 12"
    and "distinct (map fst (file_author_contrib f))"
    and "\<forall>(author, c) \<in> set (file_author_contrib f). persisted_counts today c"
  shows "\<exists>d f'. load_existing_data fs filename today = Inr d
           \<and> write_out_data filename d fs filename = Some f'
           \<and> file_last_updated f' = file_last_updated f
           \<and> set (file_repos_visited f') = set (file_repos_visited f)
           \<and> map fst (file_author_contrib f') = map fst (file_author_contrib f)
           \<and> (\<forall>author c. map_of (file_author_contrib f) author = Some c \<longrightarrow>
                (\<exists>c'. map_of (file_author_contrib f') author = Some c' \<and> same_counts c c'))"
proof -
  let ?d = "\<lparr>last_updated = file_last_updated f,
             repos_visited = set_of_list (file_repos_visited f),
             author_contrib = map (\<lambda>(author, c). (author, loaded today c)) (file_author_contrib f)\<rparr>"
  have ld: "load_existing_data fs filename today = Inr ?d"
    using assms by (rule load_existing_data_ok)
  have m: "map_of (map (\<lambda>(author, c). (author, loaded today c)) (file_author_contrib f)) author
             = Some (loaded today c) \<and> same_counts c (loaded today c)"
    if "map_of (file_author_contrib f) author = Some c" for author c
  proof -
    have "(author, c) \<in> set (file_author_contrib f)" using that by (rule map_of_SomeD)
    then have "persisted_counts today c" using assms(6) by auto
    then have "same_counts c (loaded today c)" by (rule same_counts_loaded)
    moreover have "map_of (map (\<lambda>(author, c). (author, loaded today c)) (file_author_contrib f)) author
             = Some (loaded today c)"
      using that by (simp add: map_of_map)
    ultimately show ?thesis by simp
  qed
  have fstmap: "map fst (map (\<lambda>(author, c). (author, loaded today c)) (file_author_contrib f))
        = map fst (file_author_contrib f)"
    by (induction "file_author_contrib f") auto
  show ?thesis
    apply (rule exI[of _ ?d])
    apply (rule exI[of _ "json_dump ?d"])
    using m fstmap by (simp add: ld write_out_data_def json_dump_def set_set_of_list)
qed


text \<open>A file written in February 2013, loaded in March 2013.\<close>

definition alice_counts :: author_counts where
  "alice_counts =
     \<lparr>prs_by_month = [(''2013-01'', 2), (''2013-02'', 1)],
      reviews_by_month = [(''2013-01'', 0), (''2013-02'', 4)],
      pr_comments_by_month = [(''2013-01'', 0), (''2013-02'', 0)],
      issues_by_month = [(''2013-01'', 0), (''2013-02'', 0)],
      issue_comments_by_month = [(''2013-01'', 7), (''2013-02'', 0)]\<rparr>"

definition alice_file :: dataset_file where
  "alice_file =
     \<lparr>file_last_updated = ''2013-02-07'', file_repos_visited = [''acme/widgets''],
      file_author_contrib = [(''alice'', alice_counts)]\<rparr>"

lemma window_keys_2013_3:
  "window_keys \<lparr>year = 2013, month = 3, day = 5\<rparr> = [''2013-01'', ''2013-02'', ''2013-03'']"
  by code_simp

theorem load_then_write_keeps_counts_witness:
  "\<exists>d f'. load_existing_data (Map.empty(''monthly_activity.yaml'' \<mapsto> alice_file))
              ''monthly_activity.yaml'' \<lparr>year = 2013, month = 3, day = 5\<rparr> = Inr d
     \<and> write_out_data ''monthly_activity.yaml'' d (Map.empty(''monthly_activity.yaml'' \<mapsto> alice_file))
              ''monthly_activity.yaml'' = Some f'
     \<and> file_last_updated f' = ''2013-02-07''
     \<and> set (file_repos_visited f') = {''acme/widgets''}
     \<and> map fst (file_author_contrib f') = [''alice'']
     \<and> (\<exists>c'. map_of (file_author_contrib f') ''alice'' = Some c' \<and> same_counts alice_counts c')"
proof -
  let ?fs = "Map.empty(''monthly_activity.yaml'' \<mapsto> alice_file)"
  let ?today = "\<lparr>year = 2013, month = 3, day = 5\<rparr>"
  have 1: "?fs ''monthly_activity.yaml'' = Some alice_file" by simp
  have 2: "distinct (map fst (file_author_contrib alice_file))" by (simp add: alice_file_def)
  have 3: "\<forall>(author, c) \<in> set (file_author_contrib alice_file). persisted_counts ?today c"
    by (simp add: alice_file_def alice_counts_def persisted_counts_def persisted_counter_def
          window_keys_2013_3)
  have 4: "1000 \<le> year ?today" "year ?today \<le> 9999" "month ?today \<le> 12" by simp_all
  have "\<exists>d f'. load_existing_data ?fs ''monthly_activity.yaml'' ?today = Inr d
           \<and> write_out_data ''monthly_activity.yaml'' d ?fs ''monthly_activity.yaml'' = Some f'
           \<and> file_last_updated f' = file_last_updated alice_file
           \<and> set (file_repos_visited f') = set (file_repos_visited alice_file)
           \<and> map fst (file_author_contrib f') = map fst (file_author_contrib alice_file)
           \<and> (\<forall>author c. map_of (file_author_contrib alice_file) author = Some c \<longrightarrow>
                (\<exists>c'. map_of (file_author_contrib f') author = Some c' \<and> same_counts c c'))"
    by (rule load_then_write_keeps_counts [of ?fs "''monthly_activity.yaml''" alice_file ?today,
            OF 1 4 2 3])
  then obtain d where "\<exists>f'. load_existing_data ?fs ''monthly_activity.yaml'' ?today = Inr d
           \<and> write_out_data ''monthly_activity.yaml'' d ?fs ''monthly_activity.yaml'' = Some f'
           \<and> file_last_updated f' = file_last_updated alice_file
           \<and> set (file_repos_visited f') = set (file_repos_visited alice_file)
           \<and> map fst (file_author_contrib f') = map fst (file_author_contrib alice_file)
           \<and> (\<forall>author c. map_of (file_author_contrib alice_file) author = Some c \<longrightarrow>
                (\<exists>c'. map_of (file_author_contrib f') author = Some c' \<and> same_counts c c'))" ..
  then obtain f' where r: "load_existing_data ?fs ''monthly_activity.yaml'' ?today = Inr d
           \<and> write_out_data ''monthly_activity.yaml'' d ?fs ''monthly_activity.yaml'' = Some f'
           \<and> file_last_updated f' = file_last_updated alice_file
           \<and> set (file_repos_visited f') = set (file_repos_visited alice_file)
           \<and> map fst (file_author_contrib f') = map fst (file_author_contrib alice_file)
           \<and> (\<forall>author c. map_of (file_author_contrib alice_file) author = Some c \<longrightarrow>
                (\<exists>c'. map_of (file_author_contrib f') author = Some c' \<and> same_counts c c'))" ..
  have "map_of (file_author_contrib alice_file) ''alice'' = Some alice_counts"
    by (simp add: alice_file_def)
  moreover have "\<forall>author c. map_of (file_author_contrib alice_file) author = Some c \<longrightarrow>
                (\<exists>c'. map_of (file_author_contrib f') author = Some c' \<and> same_counts c c')"
    using r by (elim conjE)
  ultimately have c': "\<exists>c'. map_of (file_author_contrib f') ''alice'' = Some c' \<and> same_counts alice_counts c'"
    by (elim allE impE) assumption+
  have v: "file_repos_visited alice_file = [''acme/widgets'']" "file_last_updated alice_file = ''2013-02-07''"
     "map fst (file_author_contrib alice_file) = [''alice'']"
    by (simp_all add: alice_file_def)
  show ?thesis
    apply (rule exI[of _ d])
    apply (rule exI[of _ f'])
    using r c' by (simp only: v list.set simp_thms)
qed

section \<open>\<^verbatim>\<open>query_prs\<close> on a pull request with more than 100 reviews\<close>

text \<open>Unfolding the loop: a round that ends well goes on from the state it leaves.\<close>

lemma query_prs_loop_stop:
  "\<not> has_next_page st \<Longrightarrow> query_prs_loop g org_name repo_name tok lu st = Some (Inr st)"
  by (subst query_prs_loop.simps) simp

lemma query_prs_loop_step:
  assumes "has_next_page st"
    and "prs_round (g (PR_QUERY org_name repo_name (cursor st) (reviews_cursor st) lu (comments_cursor st)) tok)
           (st\<lparr>issued := issued st @ [PR_QUERY org_name repo_name (cursor st) (reviews_cursor st) lu (comments_cursor st)]\<rparr>)
         = Inr st'"
  shows "query_prs_loop g org_name repo_name tok lu st = query_prs_loop g org_name repo_name tok lu st'"
  using assms by (subst query_prs_loop.simps) simp

lemma query_prs_loop_error:
  assumes "has_next_page st"
    and "prs_round (g (PR_QUERY org_name repo_name (cursor st) (reviews_cursor st) lu (comments_cursor st)) tok)
           (st\<lparr>issued := issued st @ [PR_QUERY org_name repo_name (cursor st) (reviews_cursor st) lu (comments_cursor st)]\<rparr>)
         = Inl e"
  shows "query_prs_loop g org_name repo_name tok lu st = Some (Inl e)"
  using assms by (subst query_prs_loop.simps) simp

text \<open>
  A repository with one pull request, by \<open>bob\<close>, that has 101 reviews and no comments: the
  server gives the first 100 reviews (by \<open>carol\<close>) with \<^verbatim>\<open>hasNextPage\<close> set, and the
  last one (by \<open>dave\<close>) once the reviews cursor is past them.
\<close>

definition carol_review :: review_node where
  "carol_review = \<lparr>r_author = Some ''carol'', r_submittedAt = Some ''2024-03-16T09:00:00Z''\<rparr>"

definition dave_review :: review_node where
  "dave_review = \<lparr>r_author = Some ''dave'', r_submittedAt = Some ''2024-03-17T09:00:00Z''\<rparr>"

definition no_comments :: "comment_node connection" where
  "no_comments = \<lparr>pageInfo = \<lparr>hasNextPage = False, endCursor = None\<rparr>, nodes = []\<rparr>"

definition reviews_page1 :: "pr_node connection" where
  "reviews_page1 =
     \<lparr>pageInfo = \<lparr>hasNextPage = False, endCursor = Some ''p1''\<rparr>,
      nodes = [\<lparr>pr_id = ''PR_1'', pr_number = 1, pr_createdAt = ''2024-03-15T10:00:00Z'',
                pr_author = Some ''bob'',
                pr_reviews = \<lparr>pageInfo = \<lparr>hasNextPage = True, endCursor = Some ''r100''\<rparr>,
                               nodes = replicate 100 carol_review\<rparr>,
                pr_comments = no_comments\<rparr>]\<rparr>"

definition reviews_page2 :: "pr_node connection" where
  "reviews_page2 =
     \<lparr>pageInfo = \<lparr>hasNextPage = False, endCursor = Some ''p1''\<rparr>,
      nodes = [\<lparr>pr_id = ''PR_1'', pr_number = 1, pr_createdAt = ''2024-03-15T10:00:00Z'',
                pr_author = Some ''bob'',
                pr_reviews = \<lparr>pageInfo = \<lparr>hasNextPage = False, endCursor = Some ''r101''\<rparr>,
                               nodes = [dave_review]\<rparr>,
                pr_comments = no_comments\<rparr>]\<rparr>"

fun many_reviews :: "query \<Rightarrow> string option \<Rightarrow> pr_node connection" where
  "many_reviews (PR_QUERY org_name repo_name c rc lu cc) tok =
     (if rc = ''null'' then reviews_page1 else reviews_page2)"
| "many_reviews q tok = \<lparr>pageInfo = \<lparr>hasNextPage = False, endCursor = None\<rparr>, nodes = []\<rparr>"

lemma time_bob: "parse_github_time ''2024-03-15T10:00:00Z'' =
    Inr \<lparr>year = 2024, month = 3, day = 15, hour = 10, minute = 0, second = 0\<rparr>"
  by code_simp

lemma time_carol: "parse_github_time ''2024-03-16T09:00:00Z'' =
    Inr \<lparr>year = 2024, month = 3, day = 16, hour = 9, minute = 0, second = 0\<rparr>"
  by code_simp

lemma time_dave: "parse_github_time ''2024-03-17T09:00:00Z'' =
    Inr \<lparr>year = 2024, month = 3, day = 17, hour = 9, minute = 0, second = 0\<rparr>"
  by code_simp

lemma add_reviews_replicate:
  assumes "r_author r = Some l" "r_submittedAt r = Some s" "Review l s = Inr x"
  shows "add_reviews (replicate n r) pr = Inr (pr\<lparr>reviews := reviews pr @ replicate n x\<rparr>)"
  using assms
  by (induction n arbitrary: pr) (simp_all add: replicate_app_Cons_same)

definition bob_pr :: pull_request where
  "bob_pr = \<lparr>login = ''bob'', created_at_string = ''2024-03-15T10:00:00Z'',
       created_at = \<lparr>year = 2024, month = 3, day = 15, hour = 10, minute = 0, second = 0\<rparr>,
       reviews = [], comments = []\<rparr>"

definition carol_obj :: review where
  "carol_obj = \<lparr>review_login = ''carol'', submitted_at_string = ''2024-03-16T09:00:00Z'',
       submitted_at = \<lparr>year = 2024, month = 3, day = 16, hour = 9, minute = 0, second = 0\<rparr>\<rparr>"

definition dave_obj :: review where
  "dave_obj = \<lparr>review_login = ''dave'', submitted_at_string = ''2024-03-17T09:00:00Z'',
       submitted_at = \<lparr>year = 2024, month = 3, day = 17, hour = 9, minute = 0, second = 0\<rparr>\<rparr>"

lemma round1:
  "prs_round reviews_page1
     \<lparr>cursor = ''null'', reviews_cursor = ''null'', comments_cursor = ''null'',
      has_next_page = True, collected = [], issued = qs\<rparr>
   = Inr \<lparr>cursor = ''null'', reviews_cursor = quoted (Some ''r100''), comments_cursor = ''null'',
      has_next_page = True,
      collected = [(''PR_1'', bob_pr\<lparr>reviews := replicate 100 carol_obj\<rparr>)], issued = qs\<rparr>"
  by (simp add: prs_round_def reviews_page1_def visit_pr_def PullRequest_def time_bob
        add_reviews_replicate[where l = "''carol''" and s = "''2024-03-16T09:00:00Z''" and x = carol_obj]
        carol_review_def Review_def time_carol carol_obj_def advance_prs_def quoted_def bob_pr_def)

lemma round2:
  "prs_round reviews_page2
     \<lparr>cursor = ''null'', reviews_cursor = quoted (Some ''r100''), comments_cursor = ''null'',
      has_next_page = True,
      collected = [(''PR_1'', bob_pr\<lparr>reviews := replicate 100 carol_obj\<rparr>)], issued = qs\<rparr>
   = Inr \<lparr>cursor = ''null'', reviews_cursor = ''null'', comments_cursor = ''null'',
      has_next_page = False,
      collected = [(''PR_1'', bob_pr\<lparr>reviews := [dave_obj]\<rparr>)], issued = qs\<rparr>"
  by (simp add: prs_round_def reviews_page2_def visit_pr_def PullRequest_def time_bob
        dave_review_def Review_def time_dave dave_obj_def advance_prs_def quoted_def bob_pr_def
        no_comments_def)

lemma quoted_not_null: "quoted c \<noteq> ''null''"
  by (simp add: quoted_def)

text \<open>
  Claim C1 says that every review and comment of every pull request is in the result of
  \<^verbatim>\<open>query_prs\<close> exactly once, also for a pull request with more than 100 reviews. On
  the repository above \<^verbatim>\<open>query_prs\<close> issues two queries and returns the pull request with
  the one review of the second page: the object built in the first round, with the
  first 100 reviews, is replaced in the second round by a new \<^verbatim>\<open>PullRequest\<close>.
\<close>

theorem query_prs_loses_first_reviews:
  "query_prs many_reviews ''acme'' ''widgets'' None ''2013-01-01'' =
     Some (Inr ([(''PR_1'', bob_pr\<lparr>reviews := [dave_obj]\<rparr>)],
       [PR_QUERY ''acme'' ''widgets'' ''null'' ''null'' ''2013-01-01'' ''null'',
        PR_QUERY ''acme'' ''widgets'' ''null'' (quoted (Some ''r100'')) ''2013-01-01'' ''null'']))"
proof -
  let ?q1 = "PR_QUERY ''acme'' ''widgets'' ''null'' ''null'' ''2013-01-01'' ''null''"
  let ?q2 = "PR_QUERY ''acme'' ''widgets'' ''null'' (quoted (Some ''r100'')) ''2013-01-01'' ''null''"
  let ?st0 = "\<lparr>cursor = ''null'', reviews_cursor = ''null'', comments_cursor = ''null'',
      has_next_page = True, collected = [], issued = []\<rparr> :: pull_request loop_state"
  let ?st1 = "\<lparr>cursor = ''null'', reviews_cursor = quoted (Some ''r100''), comments_cursor = ''null'',
      has_next_page = True,
      collected = [(''PR_1'', bob_pr\<lparr>reviews := replicate 100 carol_obj\<rparr>)], issued = [?q1]\<rparr>"
  let ?st2 = "\<lparr>cursor = ''null'', reviews_cursor = ''null'', comments_cursor = ''null'',
      has_next_page = False,
      collected = [(''PR_1'', bob_pr\<lparr>reviews := [dave_obj]\<rparr>)], issued = [?q1, ?q2]\<rparr>"
  have "query_prs_loop many_reviews ''acme'' ''widgets'' None ''2013-01-01'' ?st0
      = query_prs_loop many_reviews ''acme'' ''widgets'' None ''2013-01-01'' ?st1"
    by (rule query_prs_loop_step) (simp_all add: round1)
  also have "\<dots> = query_prs_loop many_reviews ''acme'' ''widgets'' None ''2013-01-01'' ?st2"
    by (rule query_prs_loop_step) (simp_all add: round2 quoted_not_null)
  also have "\<dots> = Some (Inr ?st2)"
    by (rule query_prs_loop_stop) simp
  finally show ?thesis by (simp add: query_prs_def)
qed


section \<open>One round of \<^verbatim>\<open>query_prs\<close>: which cursor moves\<close>

lemma visit_pr_keeps: "visit_pr pr st = Inr st' \<Longrightarrow>
    cursor st' = cursor st \<and> has_next_page st' = has_next_page st \<and> issued st' = issued st"
  by (auto simp: visit_pr_def split: option.splits sum.splits if_splits)

lemma visit_prs_keeps: "visit_prs ns st = Inr st' \<Longrightarrow>
    cursor st' = cursor st \<and> has_next_page st' = has_next_page st \<and> issued st' = issued st"
proof (induction ns arbitrary: st)
  case Nil
  then show ?case by simp
next
  case (Cons pr ns)
  then show ?case by (auto split: sum.splits dest!: visit_pr_keeps)
qed

lemma add_reviews_comments: "add_reviews ns obj = Inr obj' \<Longrightarrow> comments obj' = comments obj"
  by (induction ns arbitrary: obj) (auto split: option.splits sum.splits)

lemma PullRequest_empty: "PullRequest l s = Inr obj \<Longrightarrow> reviews obj = [] \<and> comments obj = [] \<and> login obj = l"
  by (auto simp: PullRequest_def split: sum.splits)

text \<open>
  Claim C2, as amended. A round that ends without an exception leaves the loop as follows,
  by priority on the two inner cursors as the nodes of the page left them: with a reviews
  cursor the loop goes on and the outer cursor stays; otherwise with a comments cursor the
  loop goes on and the outer cursor stays; otherwise, when the outer page has a next page,
  the outer cursor advances (both inner cursors are \<^verbatim>\<open>null\<close>) and the loop goes on;
  otherwise the loop ends and \<^verbatim>\<open>query_prs\<close> returns. On a page with a single pull request
  (by an author that is not \<^verbatim>\<open>null\<close>) exactly one cursor advances, as the claim says: the
  reviews cursor when the reviews have a next page (the comments of the pull request are
  then not read, and the comments cursor stays as it was); otherwise the comments cursor
  (the reviews cursor is \<^verbatim>\<open>null\<close> again); otherwise the outer cursor.
\<close>

theorem prs_round_priority:
  assumes "prs_round results st = Inr st'"
  shows "(reviews_cursor st' \<noteq> ''null'' \<longrightarrow> has_next_page st' \<and> cursor st' = cursor st)
       \<and> (reviews_cursor st' = ''null'' \<and> comments_cursor st' \<noteq> ''null'' \<longrightarrow>
            has_next_page st' \<and> cursor st' = cursor st)
       \<and> (reviews_cursor st' = ''null'' \<and> comments_cursor st' = ''null''
            \<and> hasNextPage (pageInfo results) \<longrightarrow>
            has_next_page st' \<and> cursor st' = quoted (endCursor (pageInfo results)))
       \<and> (reviews_cursor st' = ''null'' \<and> comments_cursor st' = ''null''
            \<and> \<not> hasNextPage (pageInfo results) \<longrightarrow>
            \<not> has_next_page st' \<and> cursor st' = cursor st)
       \<and> (\<not> has_next_page st' \<longrightarrow>
            query_prs_loop g org_name repo_name tok lu st' = Some (Inr st'))
       \<and> (\<forall>pr l. nodes results = [pr] \<and> pr_author pr = Some l \<longrightarrow>
            (if hasNextPage (pageInfo (pr_reviews pr))
             then reviews_cursor st' = quoted (endCursor (pageInfo (pr_reviews pr)))
                  \<and> comments_cursor st' = comments_cursor st \<and> cursor st' = cursor st
                  \<and> has_next_page st'
                  \<and> (\<exists>obj. map_of (collected st') (pr_id pr) = Some obj \<and> comments obj = [])
             else if hasNextPage (pageInfo (pr_comments pr))
             then reviews_cursor st' = ''null''
                  \<and> comments_cursor st' = quoted (endCursor (pageInfo (pr_comments pr)))
                  \<and> cursor st' = cursor st \<and> has_next_page st'
             else if hasNextPage (pageInfo results)
             then reviews_cursor st' = ''null'' \<and> comments_cursor st' = ''null''
                  \<and> cursor st' = quoted (endCursor (pageInfo results)) \<and> has_next_page st'
             else reviews_cursor st' = ''null'' \<and> comments_cursor st' = ''null''
                  \<and> cursor st' = cursor st \<and> \<not> has_next_page st'))"
proof -
  obtain st1 where v: "visit_prs (nodes results) st = Inr st1"
      and st': "st' = advance_prs (pageInfo results) st1"
    using assms by (auto simp: prs_round_def split: sum.splits)
  have keep: "cursor st1 = cursor st" using visit_prs_keeps[OF v] by simp
  have general: "(reviews_cursor st' \<noteq> ''null'' \<longrightarrow> has_next_page st' \<and> cursor st' = cursor st)
       \<and> (reviews_cursor st' = ''null'' \<and> comments_cursor st' \<noteq> ''null'' \<longrightarrow>
            has_next_page st' \<and> cursor st' = cursor st)
       \<and> (reviews_cursor st' = ''null'' \<and> comments_cursor st' = ''null''
            \<and> hasNextPage (pageInfo results) \<longrightarrow>
            has_next_page st' \<and> cursor st' = quoted (endCursor (pageInfo results)))
       \<and> (reviews_cursor st' = ''null'' \<and> comments_cursor st' = ''null''
            \<and> \<not> hasNextPage (pageInfo results) \<longrightarrow>
            \<not> has_next_page st' \<and> cursor st' = cursor st)"
    by (simp add: st' advance_prs_def keep)
  have stop: "\<not> has_next_page st' \<longrightarrow>
            query_prs_loop g org_name repo_name tok lu st' = Some (Inr st')"
    by (simp add: query_prs_loop_stop)
  have single: "(if hasNextPage (pageInfo (pr_reviews pr))
             then reviews_cursor st' = quoted (endCursor (pageInfo (pr_reviews pr)))
                  \<and> comments_cursor st' = comments_cursor st \<and> cursor st' = cursor st
                  \<and> has_next_page st'
                  \<and> (\<exists>obj. map_of (collected st') (pr_id pr) = Some obj \<and> comments obj = [])
             else if hasNextPage (pageInfo (pr_comments pr))
             then reviews_cursor st' = ''null''
                  \<and> comments_cursor st' = quoted (endCursor (pageInfo (pr_comments pr)))
                  \<and> cursor st' = cursor st \<and> has_next_page st'
             else if hasNextPage (pageInfo results)
             then reviews_cursor st' = ''null'' \<and> comments_cursor st' = ''null''
                  \<and> cursor st' = quoted (endCursor (pageInfo results)) \<and> has_next_page st'
             else reviews_cursor st' = ''null'' \<and> comments_cursor st' = ''null''
                  \<and> cursor st' = cursor st \<and> \<not> has_next_page st')"
    if "nodes results = [pr]" "pr_author pr = Some l" for pr l
  proof -
    have v1: "visit_pr pr st = Inr st1" using v that(1) by (simp split: sum.splits)
    show ?thesis
    proof (cases "hasNextPage (pageInfo (pr_reviews pr))")
      case True
      from v1 that(2) True obtain obj0 obj where o: "PullRequest l (pr_createdAt pr) = Inr obj0"
          "add_reviews (nodes (pr_reviews pr)) obj0 = Inr obj"
          and st1: "st1 = st\<lparr>collected := AList.update (pr_id pr) obj (collected st),
                      reviews_cursor := quoted (endCursor (pageInfo (pr_reviews pr)))\<rparr>"
        by (auto simp: visit_pr_def split: sum.splits)
      have "comments obj = []" using o add_reviews_comments PullRequest_empty by metis
      then show ?thesis using True
        by (simp add: st' st1 advance_prs_def quoted_not_null update_conv')
    next
      case False
      from v1 that(2) False obtain obj where
          st1: "st1 = st\<lparr>collected := AList.update (pr_id pr) obj (collected st),
                      reviews_cursor := ''null'',
                      comments_cursor := (if hasNextPage (pageInfo (pr_comments pr))
                                      then quoted (endCursor (pageInfo (pr_comments pr)))
                                      else ''null'')\<rparr>"
        by (auto simp: visit_pr_def split: sum.splits)
      show ?thesis using False
        by (simp add: st' st1 advance_prs_def quoted_not_null)
    qed
  qed
  show ?thesis using general stop single by blast
qed


text \<open>The first round on the repository of the previous section is such a round.\<close>

theorem prs_round_priority_witness:
  "prs_round reviews_page1
     \<lparr>cursor = ''null'', reviews_cursor = ''null'', comments_cursor = ''null'',
      has_next_page = True, collected = [], issued = []\<rparr>
   = Inr \<lparr>cursor = ''null'', reviews_cursor = quoted (Some ''r100''), comments_cursor = ''null'',
      has_next_page = True,
      collected = [(''PR_1'', bob_pr\<lparr>reviews := replicate 100 carol_obj\<rparr>)], issued = []\<rparr>
   \<and> quoted (Some ''r100'') \<noteq> ''null''"
proof -
  note r = round1 [of "[]"]
  have "reviews_cursor \<lparr>cursor = ''null'', reviews_cursor = quoted (Some ''r100''),
      comments_cursor = ''null'', has_next_page = True,
      collected = [(''PR_1'', bob_pr\<lparr>reviews := replicate 100 carol_obj\<rparr>)], issued = []\<rparr>
      = quoted (Some ''r100'')"
    using prs_round_priority [OF r, of many_reviews "''acme''" "''widgets''" None "''2013-01-01''"]
    by simp
  then show ?thesis using r by (simp add: quoted_not_null)
qed

text \<open>
  Claim C2 as stated has every round advance exactly one cursor. A page with two pull
  requests, the first with a further page of comments and the second with a further page
  of reviews, moves both inner cursors in one round.
\<close>

definition erin_comment :: comment_node where
  "erin_comment = \<lparr>c_author = Some ''erin'', c_createdAt = ''2024-03-18T08:30:00Z''\<rparr>"

definition erin_obj :: comment where
  "erin_obj = \<lparr>comment_login = ''erin'', comment_created_at_string = ''2024-03-18T08:30:00Z'',
       comment_created_at = \<lparr>year = 2024, month = 3, day = 18, hour = 8, minute = 30, second = 0\<rparr>\<rparr>"

lemma time_erin: "parse_github_time ''2024-03-18T08:30:00Z'' =
    Inr \<lparr>year = 2024, month = 3, day = 18, hour = 8, minute = 30, second = 0\<rparr>"
  by code_simp

lemma add_comments_replicate:
  assumes "c_author c = Some l" "Comment l (c_createdAt c) = Inr x"
  shows "add_comments (replicate n c) pr = Inr (pr\<lparr>comments := comments pr @ replicate n x\<rparr>)"
  using assms
  by (induction n arbitrary: pr) (simp_all add: replicate_app_Cons_same)

definition two_prs_page :: "pr_node connection" where
  "two_prs_page =
     \<lparr>pageInfo = \<lparr>hasNextPage = False, endCursor = Some ''p2''\<rparr>,
      nodes = [\<lparr>pr_id = ''PR_1'', pr_number = 1, pr_createdAt = ''2024-03-15T10:00:00Z'',
                pr_author = Some ''bob'',
                pr_reviews = \<lparr>pageInfo = \<lparr>hasNextPage = False, endCursor = None\<rparr>, nodes = []\<rparr>,
                pr_comments = \<lparr>pageInfo = \<lparr>hasNextPage = True, endCursor = Some ''c100''\<rparr>,
                                nodes = replicate 100 erin_comment\<rparr>\<rparr>,
               \<lparr>pr_id = ''PR_2'', pr_number = 2, pr_createdAt = ''2024-03-15T10:00:00Z'',
                pr_author = Some ''bob'',
                pr_reviews = \<lparr>pageInfo = \<lparr>hasNextPage = True, endCursor = Some ''r100''\<rparr>,
                               nodes = replicate 100 carol_review\<rparr>,
                pr_comments = no_comments\<rparr>]\<rparr>"

theorem prs_round_two_cursors_counterexample:
  "\<exists>st'. prs_round two_prs_page
            \<lparr>cursor = ''null'', reviews_cursor = ''null'', comments_cursor = ''null'',
             has_next_page = True, collected = [], issued = []\<rparr> = Inr st'
     \<and> reviews_cursor st' = quoted (Some ''r100'') \<and> reviews_cursor st' \<noteq> ''null''
     \<and> comments_cursor st' = quoted (Some ''c100'') \<and> comments_cursor st' \<noteq> ''null''"
  by (simp add: prs_round_def two_prs_page_def visit_pr_def PullRequest_def time_bob
        add_reviews_replicate[where l = "''carol''" and s = "''2024-03-16T09:00:00Z''" and x = carol_obj]
        add_comments_replicate[where l = "''erin''" and x = erin_obj]
        carol_review_def erin_comment_def Review_def Comment_def time_carol time_erin
        carol_obj_def erin_obj_def advance_prs_def quoted_not_null no_comments_def)

section \<open>\<^verbatim>\<open>query_prs\<close> on two pages of pull requests without reviews and comments\<close>

text \<open>
  A pull request node is plain when its author is not \<^verbatim>\<open>null\<close>, its \<^verbatim>\<open>createdAt\<close> parses,
  and it has no reviews, no comments and no further page of either; \<open>plain_obj\<close> is the
  \<^verbatim>\<open>PullRequest\<close> object built from it.
\<close>

definition plain_pr :: "pr_node \<Rightarrow> bool" where
  "plain_pr pr =
     (pr_author pr \<noteq> None \<and> \<not> isl (parse_github_time (pr_createdAt pr))
      \<and> nodes (pr_reviews pr) = [] \<and> \<not> hasNextPage (pageInfo (pr_reviews pr))
      \<and> nodes (pr_comments pr) = [] \<and> \<not> hasNextPage (pageInfo (pr_comments pr)))"

definition plain_obj :: "pr_node \<Rightarrow> pull_request" where
  "plain_obj pr =
     \<lparr>login = the (pr_author pr), created_at_string = pr_createdAt pr,
      created_at = projr (parse_github_time (pr_createdAt pr)), reviews = [], comments = []\<rparr>"

lemma visit_pr_plain:
  assumes "plain_pr pr"
  shows "visit_pr pr st =
           Inr (st\<lparr>collected := AList.update (pr_id pr) (plain_obj pr) (collected st),
                   reviews_cursor := ''null'', comments_cursor := ''null''\<rparr>)"
proof -
  obtain l t where "pr_author pr = Some l" "parse_github_time (pr_createdAt pr) = Inr t"
    using assms by (cases "parse_github_time (pr_createdAt pr)") (auto simp: plain_pr_def)
  then show ?thesis using assms
    by (simp add: visit_pr_def PullRequest_def plain_pr_def plain_obj_def)
qed

lemma update_new: "k \<notin> fst ` set al \<Longrightarrow> AList.update k v al = al @ [(k, v)]"
  by (induction al) auto

lemma visit_prs_plain:
  "\<forall>pr\<in>set ns. plain_pr pr \<Longrightarrow> distinct (map fst (collected st) @ map pr_id ns) \<Longrightarrow>
   reviews_cursor st = ''null'' \<Longrightarrow> comments_cursor st = ''null'' \<Longrightarrow>
   visit_prs ns st = Inr (st\<lparr>collected := collected st @ map (\<lambda>pr. (pr_id pr, plain_obj pr)) ns\<rparr>)"
proof (induction ns arbitrary: st)
  case Nil
  show ?case by simp
next
  case (Cons pr ns)
  let ?st1 = "st\<lparr>collected := collected st @ [(pr_id pr, plain_obj pr)]\<rparr>"
  have "pr_id pr \<notin> fst ` set (collected st)" using Cons.prems(2) by auto
  then have v: "visit_pr pr st = Inr ?st1"
    using Cons.prems by (simp add: visit_pr_plain update_new)
  have "visit_prs ns ?st1 = Inr (?st1\<lparr>collected := collected ?st1 @ map (\<lambda>pr. (pr_id pr, plain_obj pr)) ns\<rparr>)"
    using Cons.prems by (intro Cons.IH) auto
  then show ?case by (simp add: v)
qed

text \<open>
  Claim C4. When the first outer page ends with \<^verbatim>\<open>hasNextPage\<close> and the page after its end
  cursor does not, and all pull requests on the two pages are plain and have different ids
  (100 and 50 of them in the claim), \<^verbatim>\<open>query_prs\<close> returns, having issued exactly the two
  queries for the two outer pages, and its result holds every pull request of the two
  pages once, in the order of the pages.
\<close>

theorem query_prs_two_pages:
  assumes "g (PR_QUERY org_name repo_name ''null'' ''null'' lu ''null'') tok =
             \<lparr>pageInfo = \<lparr>hasNextPage = True, endCursor = Some c\<rparr>, nodes = ns1\<rparr>"
    and "g (PR_QUERY org_name repo_name (quoted (Some c)) ''null'' lu ''null'') tok =
             \<lparr>pageInfo = \<lparr>hasNextPage = False, endCursor = e\<rparr>, nodes = ns2\<rparr>"
    and "\<forall>pr\<in>set (ns1 @ ns2). plain_pr pr"
    and "distinct (map pr_id (ns1 @ ns2))"
  shows "query_prs g org_name repo_name tok lu =
           Some (Inr (map (\<lambda>pr. (pr_id pr, plain_obj pr)) (ns1 @ ns2),
                      [PR_QUERY org_name repo_name ''null'' ''null'' lu ''null'',
                       PR_QUERY org_name repo_name (quoted (Some c)) ''null'' lu ''null'']))"
proof -
  let ?q1 = "PR_QUERY org_name repo_name ''null'' ''null'' lu ''null''"
  let ?q2 = "PR_QUERY org_name repo_name (quoted (Some c)) ''null'' lu ''null''"
  let ?st0 = "\<lparr>cursor = ''null'', reviews_cursor = ''null'', comments_cursor = ''null'',
      has_next_page = True, collected = [], issued = []\<rparr> :: pull_request loop_state"
  let ?st1 = "\<lparr>cursor = quoted (Some c), reviews_cursor = ''null'', comments_cursor = ''null'',
      has_next_page = True, collected = map (\<lambda>pr. (pr_id pr, plain_obj pr)) ns1,
      issued = [?q1]\<rparr>"
  let ?st2 = "\<lparr>cursor = quoted (Some c), reviews_cursor = ''null'', comments_cursor = ''null'',
      has_next_page = False, collected = map (\<lambda>pr. (pr_id pr, plain_obj pr)) (ns1 @ ns2),
      issued = [?q1, ?q2]\<rparr>"
  have p1: "\<forall>pr\<in>set ns1. plain_pr pr" and p2: "\<forall>pr\<in>set ns2. plain_pr pr"
    using assms(3) by auto
  have d1: "distinct (map pr_id ns1)" using assms(4) by simp
  have d2: "distinct (map fst (map (\<lambda>pr. (pr_id pr, plain_obj pr)) ns1) @ map pr_id ns2)"
    using assms(4) by (simp add: comp_def)
  have r1: "prs_round (g ?q1 tok) (?st0\<lparr>issued := issued ?st0 @ [?q1]\<rparr>) = Inr ?st1"
    using visit_prs_plain[OF p1, of "?st0\<lparr>issued := issued ?st0 @ [?q1]\<rparr>"] d1
    by (simp add: prs_round_def assms(1) advance_prs_def)
  have r2: "prs_round (g ?q2 tok) (?st1\<lparr>issued := issued ?st1 @ [?q2]\<rparr>) = Inr ?st2"
    using visit_prs_plain[OF p2, of "?st1\<lparr>issued := issued ?st1 @ [?q2]\<rparr>"] d2
    by (simp add: prs_round_def assms(2) advance_prs_def)
  have "query_prs_loop g org_name repo_name tok lu ?st0
      = query_prs_loop g org_name repo_name tok lu ?st1"
    using r1 by (intro query_prs_loop_step) simp_all
  also have "\<dots> = query_prs_loop g org_name repo_name tok lu ?st2"
    using r2 by (intro query_prs_loop_step) simp_all
  also have "\<dots> = Some (Inr ?st2)"
    by (rule query_prs_loop_stop) simp
  finally show ?thesis by (simp add: query_prs_def)
qed


text \<open>A server with 150 plain pull requests, 100 on the first page and 50 on the second.\<close>

definition plain_node :: "nat \<Rightarrow> pr_node" where
  "plain_node n =
     \<lparr>pr_id = ''PR_'' @ str_nat n, pr_number = int n, pr_createdAt = ''2024-03-15T10:00:00Z'',
      pr_author = Some ''bob'',
      pr_reviews = \<lparr>pageInfo = \<lparr>hasNextPage = False, endCursor = None\<rparr>, nodes = []\<rparr>,
      pr_comments = \<lparr>pageInfo = \<lparr>hasNextPage = False, endCursor = None\<rparr>, nodes = []\<rparr>\<rparr>"

fun two_pages :: "query \<Rightarrow> string option \<Rightarrow> pr_node connection" where
  "two_pages (PR_QUERY org_name repo_name c rc lu cc) tok =
     (if c = ''null''
      then \<lparr>pageInfo = \<lparr>hasNextPage = True, endCursor = Some ''p100''\<rparr>,
            nodes = map plain_node [0..<100]\<rparr>
      else \<lparr>pageInfo = \<lparr>hasNextPage = False, endCursor = Some ''p150''\<rparr>,
            nodes = map plain_node [100..<150]\<rparr>)"
| "two_pages q tok = \<lparr>pageInfo = \<lparr>hasNextPage = False, endCursor = None\<rparr>, nodes = []\<rparr>"

lemma plain_plain_node: "plain_pr (plain_node n)"
  by (simp add: plain_pr_def plain_node_def time_bob)

lemma distinct_plain_nodes: "distinct (map pr_id (map plain_node [0..<100] @ map plain_node [100..<150]))"
proof -
  have "map pr_id (map plain_node [0..<100] @ map plain_node [100..<150])
        = map (\<lambda>n. ''PR_'' @ str_nat n) ([0..<100] @ [100..<150])"
    by (simp add: plain_node_def comp_def del: upt_rec_numeral)
  moreover have "distinct ([0..<100] @ [100..<150::nat])"
    by (simp only: distinct_append distinct_upt set_upt) auto
  moreover have "inj_on (\<lambda>n. ''PR_'' @ str_nat n) (set ([0..<100] @ [100..<150]))"
    by (rule inj_onI) (simp add: inj_str_nat del: upt_rec_numeral)
  ultimately show ?thesis by (simp only: distinct_map simp_thms)
qed

theorem query_prs_two_pages_witness:
  "query_prs two_pages ''acme'' ''widgets'' None ''2013-01-01'' =
     Some (Inr (map (\<lambda>pr. (pr_id pr, plain_obj pr)) (map plain_node [0..<100] @ map plain_node [100..<150]),
                [PR_QUERY ''acme'' ''widgets'' ''null'' ''null'' ''2013-01-01'' ''null'',
                 PR_QUERY ''acme'' ''widgets'' (quoted (Some ''p100'')) ''null'' ''2013-01-01'' ''null'']))
   \<and> length (map (\<lambda>pr. (pr_id pr, plain_obj pr)) (map plain_node [0..<100] @ map plain_node [100..<150])) = 150
   \<and> distinct (map pr_id (map plain_node [0..<100] @ map plain_node [100..<150]))"
proof -
  have 1: "two_pages (PR_QUERY ''acme'' ''widgets'' ''null'' ''null'' ''2013-01-01'' ''null'') None =
      \<lparr>pageInfo = \<lparr>hasNextPage = True, endCursor = Some ''p100''\<rparr>, nodes = map plain_node [0..<100]\<rparr>"
    by (simp del: upt_rec_numeral)
  have 2: "two_pages (PR_QUERY ''acme'' ''widgets'' (quoted (Some ''p100'')) ''null'' ''2013-01-01'' ''null'') None =
      \<lparr>pageInfo = \<lparr>hasNextPage = False, endCursor = Some ''p150''\<rparr>, nodes = map plain_node [100..<150]\<rparr>"
    by (simp add: quoted_not_null del: upt_rec_numeral)
  have 3: "\<forall>pr\<in>set (map plain_node [0..<100] @ map plain_node [100..<150]). plain_pr pr"
    by (auto simp: plain_plain_node simp del: upt_rec_numeral)
  have 4: "length (map (\<lambda>pr. (pr_id pr, plain_obj pr)) (map plain_node [0..<100] @ map plain_node [100..<150])) = 150"
    by (simp del: upt_rec_numeral)
  show ?thesis
    by (intro conjI)
       (rule query_prs_two_pages [where g = two_pages and org_name = "''acme''"
            and repo_name = "''widgets''" and tok = None and lu = "''2013-01-01''"
            and c = "''p100''" and e = "Some ''p150''"
            and ?ns1.0 = "map plain_node [0..<100]" and ?ns2.0 = "map plain_node [100..<150]",
            OF 1 2 3 distinct_plain_nodes], rule 4, rule distinct_plain_nodes)
qed

section \<open>Runs of \<^verbatim>\<open>main\<close>\<close>

text \<open>A query loop whose first round ends it, and a server page that is the last one.\<close>

lemma query_prs_one_round:
  assumes "prs_round (g (PR_QUERY org_name repo_name ''null'' ''null'' lu ''null'') tok)
             \<lparr>cursor = ''null'', reviews_cursor = ''null'', comments_cursor = ''null'',
              has_next_page = True, collected = [],
              issued = [PR_QUERY org_name repo_name ''null'' ''null'' lu ''null'']\<rparr> = Inr st"
    and "\<not> has_next_page st"
  shows "query_prs g org_name repo_name tok lu = Some (Inr (collected st, issued st))"
proof -
  let ?st0 = "\<lparr>cursor = ''null'', reviews_cursor = ''null'', comments_cursor = ''null'',
      has_next_page = True, collected = [], issued = []\<rparr> :: pull_request loop_state"
  have "query_prs_loop g org_name repo_name tok lu ?st0 = query_prs_loop g org_name repo_name tok lu st"
    using assms(1) by (intro query_prs_loop_step) simp_all
  also have "\<dots> = Some (Inr st)" using assms(2) by (rule query_prs_loop_stop)
  finally show ?thesis by (simp add: query_prs_def)
qed

lemma query_issues_loop_stop:
  "\<not> has_next_page st \<Longrightarrow> query_issues_loop g org_name repo_name tok lu st = Some (Inr st)"
  by (subst query_issues_loop.simps) simp

lemma query_issues_loop_step:
  assumes "has_next_page st"
    and "issues_round (g (ISSUE_QUERY org_name repo_name (cursor st) lu (comments_cursor st)) tok)
           (st\<lparr>issued := issued st @ [ISSUE_QUERY org_name repo_name (cursor st) lu (comments_cursor st)]\<rparr>)
         = Inr st'"
  shows "query_issues_loop g org_name repo_name tok lu st = query_issues_loop g org_name repo_name tok lu st'"
  using assms by (subst query_issues_loop.simps) simp

lemma query_issues_one_round:
  assumes "issues_round (g (ISSUE_QUERY org_name repo_name ''null'' lu ''null'') tok)
             \<lparr>cursor = ''null'', reviews_cursor = ''null'', comments_cursor = ''null'',
              has_next_page = True, collected = [],
              issued = [ISSUE_QUERY org_name repo_name ''null'' lu ''null'']\<rparr> = Inr st"
    and "\<not> has_next_page st"
  shows "query_issues g org_name repo_name tok lu = Some (Inr (collected st, issued st))"
proof -
  let ?st0 = "\<lparr>cursor = ''null'', reviews_cursor = ''null'', comments_cursor = ''null'',
      has_next_page = True, collected = [], issued = []\<rparr> :: issue loop_state"
  have "query_issues_loop g org_name repo_name tok lu ?st0 = query_issues_loop g org_name repo_name tok lu st"
    using assms(1) by (intro query_issues_loop_step) simp_all
  also have "\<dots> = Some (Inr st)" using assms(2) by (rule query_issues_loop_stop)
  finally show ?thesis by (simp add: query_issues_def)
qed

definition last_page :: "'a list \<Rightarrow> 'a connection" where
  "last_page ns = \<lparr>pageInfo = \<lparr>hasNextPage = False, endCursor = None\<rparr>, nodes = ns\<rparr>"

lemma query_issues_none:
  assumes "g (ISSUE_QUERY org_name repo_name ''null'' lu ''null'') tok = last_page []"
  shows "query_issues g org_name repo_name tok lu =
           Some (Inr ([], [ISSUE_QUERY org_name repo_name ''null'' lu ''null'']))"
proof -
  have "issues_round (g (ISSUE_QUERY org_name repo_name ''null'' lu ''null'') tok)
             \<lparr>cursor = ''null'', reviews_cursor = ''null'', comments_cursor = ''null'',
              has_next_page = True, collected = [],
              issued = [ISSUE_QUERY org_name repo_name ''null'' lu ''null'']\<rparr>
        = Inr \<lparr>cursor = ''null'', reviews_cursor = ''null'', comments_cursor = ''null'',
              has_next_page = False, collected = [],
              issued = [ISSUE_QUERY org_name repo_name ''null'' lu ''null'']\<rparr>"
    by (simp add: assms last_page_def issues_round_def advance_issues_def)
  from query_issues_one_round[where g = g and tok = tok, OF this] show ?thesis by simp
qed

lemma query_prs_none:
  assumes "g (PR_QUERY org_name repo_name ''null'' ''null'' lu ''null'') tok = last_page []"
  shows "query_prs g org_name repo_name tok lu =
           Some (Inr ([], [PR_QUERY org_name repo_name ''null'' ''null'' lu ''null'']))"
proof -
  have "prs_round (g (PR_QUERY org_name repo_name ''null'' ''null'' lu ''null'') tok)
             \<lparr>cursor = ''null'', reviews_cursor = ''null'', comments_cursor = ''null'',
              has_next_page = True, collected = [],
              issued = [PR_QUERY org_name repo_name ''null'' ''null'' lu ''null'']\<rparr>
        = Inr \<lparr>cursor = ''null'', reviews_cursor = ''null'', comments_cursor = ''null'',
              has_next_page = False, collected = [],
              issued = [PR_QUERY org_name repo_name ''null'' ''null'' lu ''null'']\<rparr>"
    by (simp add: assms last_page_def prs_round_def advance_prs_def)
  from query_prs_one_round[where g = g and tok = tok, OF this] show ?thesis by simp
qed

subsection \<open>Exit codes\<close>

lemma repos_option_None:
  "repos_option rs acc = None \<longleftrightarrow> (\<exists>r\<in>set rs. length (split_on CHR ''/'' r) \<noteq> 2)"
proof (induction rs arbitrary: acc)
  case Nil
  show ?case by simp
next
  case (Cons r rs)
  show ?case
  proof (cases "length (split_on CHR ''/'' r) = 2")
    case True
    then obtain a b where "split_on CHR ''/'' r = [a, b]"
      by (cases "split_on CHR ''/'' r" rule: list.exhaust[case_names Nil Cons])
         (auto simp: length_Suc_conv)
    then show ?thesis using Cons.IH by simp
  next
    case False
    then have "repos_option (r # rs) acc = None"
      by (auto split: list.splits)
    then show ?thesis using False by simp
  qed
qed

text \<open>
  Claim C8. \<^verbatim>\<open>main\<close> returns 1 when neither \<^verbatim>\<open>--repos\<close> nor \<^verbatim>\<open>--orgs\<close> is given. When some
  \<^verbatim>\<open>--repos\<close> entry does not split on \<^verbatim>\<open>/\<close> into exactly two parts, the script ends with
  exit status 1: \<^verbatim>\<open>main\<close> returns 1 if the existing data loads, before any query and with
  the files untouched (and if loading raises, the exception ends the script with status 1
  as well). Otherwise, whenever \<^verbatim>\<open>main\<close> returns, it returns 0.
\<close>

theorem main_exit_codes:
  "(repos opts = [] \<and> orgs opts = [] \<longrightarrow> main opts today gh fs = Some (Inr (1, fs, [])))
   \<and> ((\<exists>r\<in>set (repos opts). length (split_on CHR ''/'' r) \<noteq> 2) \<longrightarrow>
        exit_status (main opts today gh fs) = Some 1
        \<and> (\<forall>d. load_existing_data fs (output_file opts) today = Inr d \<longrightarrow>
              main opts today gh fs = Some (Inr (1, fs, []))))
   \<and> (\<not> (repos opts = [] \<and> orgs opts = [])
        \<and> (\<forall>r\<in>set (repos opts). length (split_on CHR ''/'' r) = 2)
        \<and> main opts today gh fs = Some (Inr (c, fs', qs)) \<longrightarrow> c = 0)"
proof (intro conjI impI)
  assume "repos opts = [] \<and> orgs opts = []"
  then show "main opts today gh fs = Some (Inr (1, fs, []))" by (simp add: main_def)
next
  assume bad: "\<exists>r\<in>set (repos opts). length (split_on CHR ''/'' r) \<noteq> 2"
  then have ne: "repos opts \<noteq> []" by auto
  have none: "repos_option (repos opts) [] = None" using bad by (simp add: repos_option_None)
  show "exit_status (main opts today gh fs) = Some 1"
    using ne none by (simp add: main_def exit_status_def split: sum.splits)
  show "\<forall>d. load_existing_data fs (output_file opts) today = Inr d \<longrightarrow>
              main opts today gh fs = Some (Inr (1, fs, []))"
    using ne none by (simp add: main_def)
next
  assume a: "\<not> (repos opts = [] \<and> orgs opts = [])
        \<and> (\<forall>r\<in>set (repos opts). length (split_on CHR ''/'' r) = 2)
        \<and> main opts today gh fs = Some (Inr (c, fs', qs))"
  then have "repos_option (repos opts) [] \<noteq> None" using repos_option_None[of "repos opts" "[]"] by auto
  then show "c = 0" using a
    by (auto simp: main_def split: sum.splits option.splits if_splits prod.splits)
qed


text \<open>
  A server without pull requests, issues or repositories, and the options
  \<^verbatim>\<open>--repos acme/widgets\<close>: the run returns 0 and leaves the dataset with the repository
  visited.
\<close>

definition quiet_github :: github where
  "quiet_github =
     \<lparr>search_prs = (\<lambda>q tok. last_page []), search_issues = (\<lambda>q tok. last_page []),
      org_repositories = (\<lambda>q tok. last_page [])\<rparr>"

definition widgets_options :: options where
  "widgets_options =
     \<lparr>orgs = [], repos = [''acme/widgets''], token = None, output_file = ''monthly_activity.yaml''\<rparr>"

lemma strftime_2024_03_20: "strftime_Ymd \<lparr>year = 2024, month = 3, day = 20\<rparr> = ''2024-03-20''"
  by code_simp

lemma split_acme_widgets: "split_on CHR ''/'' ''acme/widgets'' = [''acme'', ''widgets'']"
  by simp

lemma main_quiet:
  "main widgets_options \<lparr>year = 2024, month = 3, day = 20\<rparr> quiet_github Map.empty =
     Some (Inr (0,
       Map.empty(''monthly_activity.yaml'' \<mapsto>
         \<lparr>file_last_updated = ''2024-03-20'', file_repos_visited = [''acme/widgets''],
          file_author_contrib = []\<rparr>),
       [PR_QUERY ''acme'' ''widgets'' ''null'' ''null'' ''2013-01-01'' ''null'',
        ISSUE_QUERY ''acme'' ''widgets'' ''null'' ''2013-01-01'' ''null'']))"
  by (simp add: main_def widgets_options_def quiet_github_def load_existing_data_def
        split_acme_widgets process_repo_def resume_date_def full_name_def
        query_prs_none query_issues_none set_add_def write_out_data_def json_dump_def
        strftime_2024_03_20)

theorem main_exit_codes_witness:
  "main widgets_options \<lparr>year = 2024, month = 3, day = 20\<rparr> quiet_github Map.empty =
     Some (Inr (0,
       Map.empty(''monthly_activity.yaml'' \<mapsto>
         \<lparr>file_last_updated = ''2024-03-20'', file_repos_visited = [''acme/widgets''],
          file_author_contrib = []\<rparr>),
       [PR_QUERY ''acme'' ''widgets'' ''null'' ''null'' ''2013-01-01'' ''null'',
        ISSUE_QUERY ''acme'' ''widgets'' ''null'' ''2013-01-01'' ''null'']))
   \<and> exit_status (main (widgets_options\<lparr>repos := [''acme/widgets'', ''widgets'']\<rparr>)
         \<lparr>year = 2024, month = 3, day = 20\<rparr> quiet_github Map.empty) = Some 1
   \<and> main (widgets_options\<lparr>repos := []\<rparr>) \<lparr>year = 2024, month = 3, day = 20\<rparr> quiet_github
         Map.empty = Some (Inr (1, Map.empty, []))"
proof -
  have bad: "\<exists>r\<in>set (repos (widgets_options\<lparr>repos := [''acme/widgets'', ''widgets'']\<rparr>)).
               length (split_on CHR ''/'' r) \<noteq> 2"
    by simp
  have none: "repos (widgets_options\<lparr>repos := []\<rparr>) = [] \<and> orgs (widgets_options\<lparr>repos := []\<rparr>) = []"
    by (simp add: widgets_options_def)
  have 1: "exit_status (main (widgets_options\<lparr>repos := [''acme/widgets'', ''widgets'']\<rparr>)
         \<lparr>year = 2024, month = 3, day = 20\<rparr> quiet_github Map.empty) = Some 1"
    by (rule main_exit_codes [of "widgets_options\<lparr>repos := [''acme/widgets'', ''widgets'']\<rparr>"
            "\<lparr>year = 2024, month = 3, day = 20\<rparr>" quiet_github Map.empty 0 Map.empty "[]",
            THEN conjunct2, THEN conjunct1, THEN mp, OF bad, THEN conjunct1])
  have 2: "main (widgets_options\<lparr>repos := []\<rparr>) \<lparr>year = 2024, month = 3, day = 20\<rparr> quiet_github
         Map.empty = Some (Inr (1, Map.empty, []))"
    by (rule main_exit_codes [of "widgets_options\<lparr>repos := []\<rparr>"
            "\<lparr>year = 2024, month = 3, day = 20\<rparr>" quiet_github Map.empty 0 Map.empty "[]",
            THEN conjunct1, THEN mp, OF none])
  show ?thesis using 1 2 main_quiet by (intro conjI)
qed

subsection \<open>A pull request by a deleted account\<close>

text \<open>
  \<open>without_deleted gh\<close> is the server \<open>gh\<close> with the pull requests whose author is \<^verbatim>\<open>null\<close>
  taken out of every page it answers with.
\<close>

definition drop_deleted :: "pr_node connection \<Rightarrow> pr_node connection" where
  "drop_deleted results = results\<lparr>nodes := filter (\<lambda>pr. pr_author pr \<noteq> None) (nodes results)\<rparr>"

definition without_deleted :: "github \<Rightarrow> github" where
  "without_deleted gh = gh\<lparr>search_prs := (\<lambda>q tok. drop_deleted (search_prs gh q tok))\<rparr>"

lemma visit_pr_deleted: "pr_author pr = None \<Longrightarrow> visit_pr pr st = Inr st"
  by (simp add: visit_pr_def)

lemma visit_prs_drop_deleted:
  "visit_prs (filter (\<lambda>pr. pr_author pr \<noteq> None) ns) st = visit_prs ns st"
proof (induction ns arbitrary: st)
  case Nil
  show ?case by simp
next
  case (Cons pr ns)
  show ?case
  proof (cases "pr_author pr = None")
    case True
    then show ?thesis by (simp add: visit_pr_deleted Cons.IH del: not_None_eq)
  next
    case False
    then show ?thesis by (cases "visit_pr pr st") (simp_all add: Cons.IH del: not_None_eq)
  qed
qed

lemma prs_round_drop_deleted: "prs_round (drop_deleted results) st = prs_round results st"
  by (cases "visit_prs (nodes results) st")
     (simp_all add: prs_round_def drop_deleted_def visit_prs_drop_deleted del: not_None_eq)

lemma query_prs_loop_same_rounds_le:
  assumes "query_prs_loop g' org_name repo_name tok lu st = Some y"
  shows "(\<forall>q t s. prs_round (g' q t) s = prs_round (g q t) s) \<longrightarrow>
         query_prs_loop g org_name repo_name tok lu st = Some y"
  using assms
proof (induction rule: query_prs_loop.raw_induct[rotated, consumes 1])
  case (1 f g0 org_name repo_name tok lu st y)
  show ?case
  proof
    assume same: "\<forall>q t s. prs_round (g0 q t) s = prs_round (g q t) s"
    let ?q = "PR_QUERY org_name repo_name (cursor st) (reviews_cursor st) lu (comments_cursor st)"
    show "query_prs_loop g org_name repo_name tok lu st = Some y"
    proof (cases "has_next_page st")
      case False
      then show ?thesis using 1(2) by (simp add: query_prs_loop_stop)
    next
      case True
      show ?thesis
      proof (cases "prs_round (g0 ?q tok) (st\<lparr>issued := issued st @ [?q]\<rparr>)")
        case (Inl e)
        then have "y = Inl e" using 1(2) True by simp
        moreover have "prs_round (g ?q tok) (st\<lparr>issued := issued st @ [?q]\<rparr>) = Inl e"
          using Inl same by simp
        ultimately show ?thesis using True by (simp add: query_prs_loop_error)
      next
        case (Inr st')
        then have "f g0 org_name repo_name tok lu st' = Some y" using 1(2) True by simp
        then have "query_prs_loop g org_name repo_name tok lu st' = Some y"
          using 1(1) same by blast
        moreover have "prs_round (g ?q tok) (st\<lparr>issued := issued st @ [?q]\<rparr>) = Inr st'"
          using Inr same by simp
        ultimately show ?thesis using True query_prs_loop_step[of st g org_name repo_name lu tok st']
          by simp
      qed
    qed
  qed
qed

lemma query_prs_loop_same_rounds:
  assumes "\<And>q t s. prs_round (g' q t) s = prs_round (g q t) s"
  shows "query_prs_loop g' org_name repo_name tok lu st = query_prs_loop g org_name repo_name tok lu st"
proof (cases "query_prs_loop g' org_name repo_name tok lu st")
  case (Some y)
  then show ?thesis using query_prs_loop_same_rounds_le[OF Some, of g] assms by simp
next
  case None
  show ?thesis
  proof (cases "query_prs_loop g org_name repo_name tok lu st")
    case None': None
    then show ?thesis using None by simp
  next
    case (Some y)
    then have "query_prs_loop g' org_name repo_name tok lu st = Some y"
      using query_prs_loop_same_rounds_le[OF Some, of g'] assms by simp
    then show ?thesis using None by simp
  qed
qed

lemma query_prs_drop_deleted:
  "query_prs (\<lambda>q tok. drop_deleted (g q tok)) org_name repo_name tok lu
     = query_prs g org_name repo_name tok lu"
  unfolding query_prs_def
  by (subst query_prs_loop_same_rounds[of "\<lambda>q tok. drop_deleted (g q tok)" g])
     (simp_all add: prs_round_drop_deleted)

lemma without_deleted_fields:
  "search_prs (without_deleted gh) = (\<lambda>q tok. drop_deleted (search_prs gh q tok))"
  "search_issues (without_deleted gh) = search_issues gh"
  "org_repositories (without_deleted gh) = org_repositories gh"
  by (simp_all add: without_deleted_def)

lemma process_repo_without_deleted:
  "process_repo (without_deleted gh) opts today org_name repo_name st
     = process_repo gh opts today org_name repo_name st"
  unfolding process_repo_def without_deleted_fields query_prs_drop_deleted ..

lemma process_repos_without_deleted:
  "process_repos (without_deleted gh) opts today org_name rs st
     = process_repos gh opts today org_name rs st"
  by (induction rs arbitrary: st)
     (simp_all add: process_repo_without_deleted cong: option.case_cong sum.case_cong)

lemma process_orgs_without_deleted:
  "process_orgs (without_deleted gh) opts today org_repos st
     = process_orgs gh opts today org_repos st"
proof (induction org_repos arbitrary: st)
  case Nil
  show ?case by simp
next
  case (Cons p org_repos)
  obtain org_name rs where p: "p = (org_name, rs)" by (cases p)
  show ?case
    by (simp add: p Cons.IH process_repos_without_deleted cong: option.case_cong sum.case_cong)
qed

lemma orgs_option_without_deleted:
  "orgs_option (without_deleted gh) tok os acc = orgs_option gh tok os acc"
proof (induction os arbitrary: acc)
  case Nil
  show ?case by simp
next
  case (Cons org os)
  obtain org_repos qs where acc: "acc = (org_repos, qs)" by (cases acc)
  show ?case by (simp add: acc Cons.IH without_deleted_fields cong: option.case_cong)
qed

text \<open>
  Claim C3, as amended. A pull request whose author is \<^verbatim>\<open>null\<close> adds nothing to any counter,
  neither for itself nor for its reviews and comments: \<^verbatim>\<open>query_prs\<close> skips the whole node, so
  a run of \<^verbatim>\<open>main\<close> ends exactly as it does when the server leaves such nodes out (same exit
  code, same files, same queries; it raises or runs forever in the same cases).
\<close>

theorem deleted_pr_author_skips_whole_pr:
  "main opts today (without_deleted gh) fs = main opts today gh fs"
  unfolding main_def orgs_option_without_deleted process_orgs_without_deleted ..


text \<open>
  Claim C3 as stated has the reviews and comments of such a pull request counted for their
  own authors. On a repository with one pull request by a deleted account, reviewed by
  \<open>carol\<close> and commented on by \<open>erin\<close>, the run returns 0 and the dataset it writes has no
  author at all.
\<close>

definition ghost_page :: "pr_node connection" where
  "ghost_page =
     last_page [\<lparr>pr_id = ''PR_9'', pr_number = 9, pr_createdAt = ''2024-03-15T10:00:00Z'',
                 pr_author = None,
                 pr_reviews = last_page [\<lparr>r_author = Some ''carol'',
                                           r_submittedAt = Some ''2024-03-16T09:00:00Z''\<rparr>],
                 pr_comments = last_page [\<lparr>c_author = Some ''erin'',
                                            c_createdAt = ''2024-03-18T08:30:00Z''\<rparr>]\<rparr>]"

definition ghost_github :: github where
  "ghost_github =
     \<lparr>search_prs = (\<lambda>q tok. ghost_page), search_issues = (\<lambda>q tok. last_page []),
      org_repositories = (\<lambda>q tok. last_page [])\<rparr>"

lemma query_prs_ghost:
  "query_prs (\<lambda>q tok. ghost_page) org_name repo_name tok lu =
     Some (Inr ([], [PR_QUERY org_name repo_name ''null'' ''null'' lu ''null'']))"
proof -
  have "prs_round ghost_page
             \<lparr>cursor = ''null'', reviews_cursor = ''null'', comments_cursor = ''null'',
              has_next_page = True, collected = [],
              issued = [PR_QUERY org_name repo_name ''null'' ''null'' lu ''null'']\<rparr>
        = Inr \<lparr>cursor = ''null'', reviews_cursor = ''null'', comments_cursor = ''null'',
              has_next_page = False, collected = [],
              issued = [PR_QUERY org_name repo_name ''null'' ''null'' lu ''null'']\<rparr>"
    by (simp add: ghost_page_def last_page_def prs_round_def visit_pr_def advance_prs_def)
  from query_prs_one_round[where g = "\<lambda>q tok. ghost_page" and tok = tok, OF this]
  show ?thesis by simp
qed

lemma main_ghost:
  "main widgets_options \<lparr>year = 2024, month = 3, day = 20\<rparr> ghost_github Map.empty =
     Some (Inr (0,
       Map.empty(''monthly_activity.yaml'' \<mapsto>
         \<lparr>file_last_updated = ''2024-03-20'', file_repos_visited = [''acme/widgets''],
          file_author_contrib = []\<rparr>),
       [PR_QUERY ''acme'' ''widgets'' ''null'' ''null'' ''2013-01-01'' ''null'',
        ISSUE_QUERY ''acme'' ''widgets'' ''null'' ''2013-01-01'' ''null'']))"
  by (simp add: main_def widgets_options_def ghost_github_def load_existing_data_def
        split_acme_widgets process_repo_def resume_date_def full_name_def
        query_prs_ghost query_issues_none set_add_def write_out_data_def json_dump_def
        strftime_2024_03_20)

theorem deleted_pr_author_reviews_counterexample:
  "r_author (hd (nodes (pr_reviews (hd (nodes ghost_page))))) = Some ''carol''
   \<and> main widgets_options \<lparr>year = 2024, month = 3, day = 20\<rparr> ghost_github Map.empty =
     Some (Inr (0,
       Map.empty(''monthly_activity.yaml'' \<mapsto>
         \<lparr>file_last_updated = ''2024-03-20'', file_repos_visited = [''acme/widgets''],
          file_author_contrib = []\<rparr>),
       [PR_QUERY ''acme'' ''widgets'' ''null'' ''null'' ''2013-01-01'' ''null'',
        ISSUE_QUERY ''acme'' ''widgets'' ''null'' ''2013-01-01'' ''null'']))
   \<and> map_of ([] :: (string, author_counts) dict) ''carol'' = None"
  using main_ghost by (simp add: ghost_page_def last_page_def)

theorem deleted_pr_author_skips_whole_pr_witness:
  "main widgets_options \<lparr>year = 2024, month = 3, day = 20\<rparr> (without_deleted ghost_github) Map.empty =
     Some (Inr (0,
       Map.empty(''monthly_activity.yaml'' \<mapsto>
         \<lparr>file_last_updated = ''2024-03-20'', file_repos_visited = [''acme/widgets''],
          file_author_contrib = []\<rparr>),
       [PR_QUERY ''acme'' ''widgets'' ''null'' ''null'' ''2013-01-01'' ''null'',
        ISSUE_QUERY ''acme'' ''widgets'' ''null'' ''2013-01-01'' ''null'']))
   \<and> nodes (search_prs (without_deleted ghost_github)
         (PR_QUERY ''acme'' ''widgets'' ''null'' ''null'' ''2013-01-01'' ''null'') None) = []"
  using deleted_pr_author_skips_whole_pr [of widgets_options "\<lparr>year = 2024, month = 3, day = 20\<rparr>"
          ghost_github Map.empty] main_ghost
  by (simp add: without_deleted_fields drop_deleted_def ghost_github_def ghost_page_def last_page_def)

subsection \<open>The date from which a repository is queried\<close>

text \<open>
  A pull request or issue query uses the resume date of its repository with respect to the
  dataset \<open>d\<close> when its \<^verbatim>\<open>last_updated\<close> is \<open>2013-01-01\<close> for a repository that is not in
  \<^verbatim>\<open>repos_visited\<close> of \<open>d\<close>, and \<^verbatim>\<open>last_updated\<close> of \<open>d\<close> for one that is. The targets of a
  run are well formed when every organization occurs once, with its repositories listed
  once, and no organization name has a \<^verbatim>\<open>/\<close> in it; then two targets never have the same
  full name.
\<close>

definition uses_resume_date :: "output_data \<Rightarrow> query \<Rightarrow> bool" where
  "uses_resume_date d q =
     (case q of
        PR_QUERY org_name repo_name c rc lu cc \<Rightarrow> lu = resume_date d (full_name org_name repo_name)
      | ISSUE_QUERY org_name repo_name c lu cc \<Rightarrow> lu = resume_date d (full_name org_name repo_name)
      | ORG_QUERY org_name c \<Rightarrow> True)"

definition wf_targets :: "(string, string list) dict \<Rightarrow> bool" where
  "wf_targets org_repos =
     (distinct (map fst org_repos)
      \<and> (\<forall>(org_name, rs)\<in>set org_repos. distinct rs \<and> CHR ''/'' \<notin> set org_name))"

lemma split_on_no_sep: "w \<in> set (split_on c s) \<Longrightarrow> c \<notin> set w"
proof (induction s arbitrary: w)
  case Nil
  then show ?case by simp
next
  case (Cons x s)
  show ?case
  proof (cases "x = c")
    case True
    then show ?thesis using Cons by auto
  next
    case False
    then show ?thesis using Cons by (cases "split_on c s") (auto split: list.splits)
  qed
qed

lemma distinct_set_add: "distinct s \<Longrightarrow> distinct (set_add x s)"
  by (simp add: set_add_def)

lemma distinct_set_update: "distinct s \<Longrightarrow> distinct (set_update xs s)"
  unfolding set_update_def
  by (induction xs arbitrary: s) (simp_all add: distinct_set_add)

lemma wf_targets_new:
  "wf_targets (if map_of al k = None then AList.update k [] al else al)"
  if "wf_targets al" "CHR ''/'' \<notin> set k"
proof (cases "map_of al k = None")
  case True
  then have "k \<notin> fst ` set al" by (simp add: map_of_eq_None_iff)
  then show ?thesis using that True by (auto simp: update_new wf_targets_def)
next
  case False
  then show ?thesis using that by auto
qed

lemma wf_targets_map_entry:
  assumes "wf_targets al" "\<And>s. distinct s \<Longrightarrow> distinct (f s)"
  shows "wf_targets (AList.map_entry k f al)"
  using assms(1)
proof (induction al)
  case Nil
  then show ?case by simp
next
  case (Cons p al)
  obtain a b where p: "p = (a, b)" by (cases p)
  have "wf_targets al" using Cons.prems by (auto simp: wf_targets_def)
  then have IH: "wf_targets (AList.map_entry k f al)" by (rule Cons.IH)
  show ?case using Cons.prems IH assms(2)
    by (auto simp: p wf_targets_def dom_map_entry)
qed


lemma repos_option_wf:
  "repos_option rs acc = Some org_repos \<Longrightarrow> wf_targets acc \<Longrightarrow> wf_targets org_repos"
proof (induction rs arbitrary: acc)
  case Nil
  then show ?case by simp
next
  case (Cons r rs)
  from Cons.prems(1) obtain org repo where sp: "split_on CHR ''/'' r = [org, repo]"
    by (auto split: list.splits)
  have "org \<in> set (split_on CHR ''/'' r)" by (simp add: sp)
  then have ns: "CHR ''/'' \<notin> set org" by (rule split_on_no_sep)
  let ?acc = "AList.map_entry org (set_add repo)
               (if map_of acc org = None then AList.update org [] acc else acc)"
  have "wf_targets ?acc"
    by (intro wf_targets_map_entry wf_targets_new Cons.prems(2) ns distinct_set_add)
  moreover have "repos_option rs ?acc = Some org_repos" using Cons.prems(1) by (simp add: sp)
  ultimately show ?case using Cons.IH by blast
qed

lemma query_org_repos_loop_issued:
  assumes "query_org_repos_loop g org_name tok st = Some st'"
  shows "(\<forall>q\<in>set (org_issued st). \<exists>n c. q = ORG_QUERY n c) \<longrightarrow>
         (\<forall>q\<in>set (org_issued st'). \<exists>n c. q = ORG_QUERY n c)"
  using assms
proof (induction rule: query_org_repos_loop.raw_induct[rotated, consumes 1])
  case (1 f g org_name tok st st')
  show ?case
  proof (cases "org_has_next_page st")
    case False
    then show ?thesis using 1(2) by simp
  next
    case True
    then show ?thesis using 1(2) 1(1) by (auto split: if_splits)
  qed
qed

lemma query_org_repos_from_name_issued:
  assumes "query_org_repos_from_name g org_name tok = Some (names, qs)"
  shows "\<forall>q\<in>set qs. \<exists>n c. q = ORG_QUERY n c"
proof -
  obtain st' where "query_org_repos_loop g org_name tok
             \<lparr>org_cursor = ''null'', org_has_next_page = True, organization_repos = [],
              org_issued = []\<rparr> = Some st'" and "qs = org_issued st'"
    using assms by (auto simp: query_org_repos_from_name_def split: option.splits)
  then show ?thesis using query_org_repos_loop_issued by fastforce
qed

lemma orgs_option_wf:
  "orgs_option gh tok os (acc, qs) = Some (org_repos, qs') \<Longrightarrow> wf_targets acc \<Longrightarrow>
   \<forall>org\<in>set os. CHR ''/'' \<notin> set org \<Longrightarrow> \<forall>q\<in>set qs. \<exists>n c. q = ORG_QUERY n c \<Longrightarrow>
   wf_targets org_repos \<and> (\<forall>q\<in>set qs'. \<exists>n c. q = ORG_QUERY n c)"
proof (induction os arbitrary: acc qs)
  case Nil
  then show ?case by simp
next
  case (Cons org os)
  from Cons.prems(1) obtain names qs1 where
      q: "query_org_repos_from_name (org_repositories gh) org tok = Some (names, qs1)"
    by (auto split: option.splits)
  let ?acc = "AList.map_entry org (set_update names)
               (if map_of acc org = None then AList.update org [] acc else acc)"
  have ns: "CHR ''/'' \<notin> set org" using Cons.prems(3) by simp
  have "wf_targets ?acc"
    by (intro wf_targets_map_entry wf_targets_new Cons.prems(2) ns distinct_set_update)
  moreover have "orgs_option gh tok os (?acc, qs @ qs1) = Some (org_repos, qs')"
    using Cons.prems(1) by (simp add: q)
  moreover have "\<forall>org\<in>set os. CHR ''/'' \<notin> set org" using Cons.prems(3) by simp
  moreover have "\<forall>q\<in>set (qs @ qs1). \<exists>n c. q = ORG_QUERY n c"
    using Cons.prems(4) query_org_repos_from_name_issued[OF q] by auto
  ultimately show ?case using Cons.IH by blast
qed

lemma advance_prs_issued: "issued (advance_prs p st) = issued st"
  by (simp add: advance_prs_def)

lemma prs_round_issued: "prs_round results st = Inr st' \<Longrightarrow> issued st' = issued st"
  using visit_prs_keeps by (fastforce simp: prs_round_def advance_prs_issued split: sum.splits)

lemma query_prs_loop_issued:
  assumes "query_prs_loop g org_name repo_name tok lu st = Some (Inr st')"
  shows "(\<forall>q\<in>set (issued st). \<exists>c rc cc. q = PR_QUERY org_name repo_name c rc lu cc) \<longrightarrow>
         (\<forall>q\<in>set (issued st'). \<exists>c rc cc. q = PR_QUERY org_name repo_name c rc lu cc)"
  using assms
proof (induction g org_name repo_name tok lu st "Inr st' :: error + pull_request loop_state"
        rule: query_prs_loop.raw_induct[rotated, consumes 1])
  case (1 f g org_name repo_name tok lu st)
  show ?case
  proof (cases "has_next_page st")
    case False
    then show ?thesis using 1(2) by simp
  next
    case True
    let ?q = "PR_QUERY org_name repo_name (cursor st) (reviews_cursor st) lu (comments_cursor st)"
    from 1(2) True obtain st1 where r: "prs_round (g ?q tok) (st\<lparr>issued := issued st @ [?q]\<rparr>) = Inr st1"
        and f: "f g org_name repo_name tok lu st1 = Some (Inr st')"
      by (auto split: sum.splits)
    have "issued st1 = issued st @ [?q]" using prs_round_issued[OF r] by simp
    then show ?thesis using 1(1)[OF f] by auto
  qed
qed

lemma query_prs_issued:
  assumes "query_prs g org_name repo_name tok lu = Some (Inr (prs, qs))"
  shows "\<forall>q\<in>set qs. \<exists>c rc cc. q = PR_QUERY org_name repo_name c rc lu cc"
proof -
  obtain st' where "query_prs_loop g org_name repo_name tok lu
             \<lparr>cursor = ''null'', reviews_cursor = ''null'', comments_cursor = ''null'',
              has_next_page = True, collected = [], issued = []\<rparr> = Some (Inr st')"
      and "qs = issued st'"
    using assms by (auto simp: query_prs_def split: option.splits sum.splits)
  then show ?thesis using query_prs_loop_issued by fastforce
qed


lemma visit_issue_issued: "visit_issue i st = Inr st' \<Longrightarrow> issued st' = issued st"
  by (auto simp: visit_issue_def split: option.splits sum.splits)

lemma visit_issues_issued: "visit_issues ns st = Inr st' \<Longrightarrow> issued st' = issued st"
proof (induction ns arbitrary: st)
  case Nil
  then show ?case by simp
next
  case (Cons i ns)
  then show ?case by (auto split: sum.splits dest!: visit_issue_issued)
qed

lemma issues_round_issued: "issues_round results st = Inr st' \<Longrightarrow> issued st' = issued st"
  using visit_issues_issued
  by (fastforce simp: issues_round_def advance_issues_def split: sum.splits)

lemma query_issues_loop_issued:
  assumes "query_issues_loop g org_name repo_name tok lu st = Some (Inr st')"
  shows "(\<forall>q\<in>set (issued st). \<exists>c cc. q = ISSUE_QUERY org_name repo_name c lu cc) \<longrightarrow>
         (\<forall>q\<in>set (issued st'). \<exists>c cc. q = ISSUE_QUERY org_name repo_name c lu cc)"
  using assms
proof (induction g org_name repo_name tok lu st "Inr st' :: error + issue loop_state"
        rule: query_issues_loop.raw_induct[rotated, consumes 1])
  case (1 f g org_name repo_name tok lu st)
  show ?case
  proof (cases "has_next_page st")
    case False
    then show ?thesis using 1(2) by simp
  next
    case True
    let ?q = "ISSUE_QUERY org_name repo_name (cursor st) lu (comments_cursor st)"
    from 1(2) True obtain st1 where r: "issues_round (g ?q tok) (st\<lparr>issued := issued st @ [?q]\<rparr>) = Inr st1"
        and f: "f g org_name repo_name tok lu st1 = Some (Inr st')"
      by (auto split: sum.splits)
    have "issued st1 = issued st @ [?q]" using issues_round_issued[OF r] by simp
    then show ?thesis using 1(1)[OF f] by auto
  qed
qed

lemma query_issues_issued:
  assumes "query_issues g org_name repo_name tok lu = Some (Inr (issues, qs))"
  shows "\<forall>q\<in>set qs. \<exists>c cc. q = ISSUE_QUERY org_name repo_name c lu cc"
proof -
  obtain st' where "query_issues_loop g org_name repo_name tok lu
             \<lparr>cursor = ''null'', reviews_cursor = ''null'', comments_cursor = ''null'',
              has_next_page = True, collected = [], issued = []\<rparr> = Some (Inr st')"
      and "qs = issued st'"
    using assms by (auto simp: query_issues_def split: option.splits sum.splits)
  then show ?thesis using query_issues_loop_issued by fastforce
qed

lemma takeWhile_until: "c \<notin> set x \<Longrightarrow> takeWhile (\<lambda>z. z \<noteq> c) (x @ c # y) = x"
  by (induction x) auto

lemma full_name_inj:
  assumes "CHR ''/'' \<notin> set a" "CHR ''/'' \<notin> set a'" "full_name a r = full_name a' r'"
  shows "a = a' \<and> r = r'"
proof -
  have "takeWhile (\<lambda>z. z \<noteq> CHR ''/'') (full_name a r) = a"
    using assms(1) by (simp add: full_name_def takeWhile_until)
  moreover have "takeWhile (\<lambda>z. z \<noteq> CHR ''/'') (full_name a' r') = a'"
    using assms(2) by (simp add: full_name_def takeWhile_until)
  ultimately have "a = a'" using assms(3) by simp
  then show ?thesis using assms(3) by (simp add: full_name_def)
qed

text \<open>
  The invariant of the loops over the targets: \<^verbatim>\<open>last_updated\<close> is as loaded, the visited
  repositories are those loaded and those processed since (\<open>V\<close>), and the queries so far
  use the resume dates.
\<close>

definition resumed :: "output_data \<Rightarrow> string set \<Rightarrow> run_state \<Rightarrow> bool" where
  "resumed d0 V st =
     (last_updated (dataset st) = last_updated d0
      \<and> set (repos_visited (dataset st)) = set (repos_visited d0) \<union> V
      \<and> (\<forall>q\<in>set (requests st). uses_resume_date d0 q))"

lemma process_repo_resumed:
  assumes "process_repo gh opts today org_name repo_name st = Some (Inr st')"
    and "resumed d0 V st"
    and "full_name org_name repo_name \<notin> V"
  shows "resumed d0 (insert (full_name org_name repo_name) V) st'"
proof -
  let ?lu = "resume_date (dataset st) (full_name org_name repo_name)"
  from assms(1) obtain prs qs1 c1 issues qs2 c2 where
      q1: "query_prs (search_prs gh) org_name repo_name (token opts) ?lu = Some (Inr (prs, qs1))"
      and q2: "query_issues (search_issues gh) org_name repo_name (token opts) ?lu = Some (Inr (issues, qs2))"
      and st': "st' = \<lparr>dataset = (dataset st)
                              \<lparr>repos_visited :=
                                 set_add (full_name org_name repo_name) (repos_visited (dataset st)),
                               author_contrib := c2\<rparr>,
                            files = write_out_data (output_file opts)
                              ((dataset st)
                                 \<lparr>repos_visited :=
                                    set_add (full_name org_name repo_name)
                                      (repos_visited (dataset st)),
                                  author_contrib := c2\<rparr>)
                              (files st),
                            requests = requests st @ qs1 @ qs2\<rparr>"
    by (auto simp: process_repo_def split: option.splits sum.splits prod.splits)
  have lu: "?lu = resume_date d0 (full_name org_name repo_name)"
    using assms(2,3) by (auto simp: resumed_def resume_date_def)
  have g1: "\<forall>q\<in>set qs1. uses_resume_date d0 q"
    using query_prs_issued[OF q1] lu by (auto simp: uses_resume_date_def)
  have g2: "\<forall>q\<in>set qs2. uses_resume_date d0 q"
    using query_issues_issued[OF q2] lu by (auto simp: uses_resume_date_def)
  show ?thesis
    using assms(2) g1 g2 by (auto simp: resumed_def st' set_add_def)
qed

lemma process_repos_resumed:
  "process_repos gh opts today org_name rs st = Some (Inr st') \<Longrightarrow> resumed d0 V st \<Longrightarrow>
   distinct rs \<Longrightarrow> full_name org_name ` set rs \<inter> V = {} \<Longrightarrow> CHR ''/'' \<notin> set org_name \<Longrightarrow>
   resumed d0 (V \<union> full_name org_name ` set rs) st'"
proof (induction rs arbitrary: st V)
  case Nil
  then show ?case by simp
next
  case (Cons r rs)
  from Cons.prems(1) obtain st1 where
      p: "process_repo gh opts today org_name r st = Some (Inr st1)"
      and rest: "process_repos gh opts today org_name rs st1 = Some (Inr st')"
    by (auto split: option.splits sum.splits)
  have "full_name org_name r \<notin> V" using Cons.prems(4) by auto
  then have r1: "resumed d0 (insert (full_name org_name r) V) st1"
    using process_repo_resumed[OF p Cons.prems(2)] by simp
  have "full_name org_name x \<notin> insert (full_name org_name r) V" if "x \<in> set rs" for x
  proof -
    have "x \<noteq> r" using that Cons.prems(3) by auto
    then have "full_name org_name x \<noteq> full_name org_name r"
      using full_name_inj[OF Cons.prems(5) Cons.prems(5), of x r] by blast
    moreover have "full_name org_name x \<notin> V" using that Cons.prems(4) by auto
    ultimately show ?thesis by simp
  qed
  then have "full_name org_name ` set rs \<inter> insert (full_name org_name r) V = {}"
    by blast
  from Cons.IH[OF rest r1 _ this Cons.prems(5)] Cons.prems(3)
  show ?case by (simp add: Un_commute insert_commute)
qed

definition target_names :: "(string, string list) dict \<Rightarrow> string set" where
  "target_names org_repos = (\<Union>(org_name, rs)\<in>set org_repos. full_name org_name ` set rs)"

lemma process_orgs_resumed:
  "process_orgs gh opts today org_repos st = Some (Inr st') \<Longrightarrow> resumed d0 V st \<Longrightarrow>
   wf_targets org_repos \<Longrightarrow> target_names org_repos \<inter> V = {} \<Longrightarrow>
   resumed d0 (V \<union> target_names org_repos) st'"
proof (induction org_repos arbitrary: st V)
  case Nil
  then show ?case by (simp add: target_names_def)
next
  case (Cons p org_repos)
  obtain org_name rs where p: "p = (org_name, rs)" by (cases p)
  from Cons.prems(1) obtain st1 where
      q: "process_repos gh opts today org_name rs st = Some (Inr st1)"
      and rest: "process_orgs gh opts today org_repos st1 = Some (Inr st')"
    by (auto simp: p split: option.splits sum.splits)
  have wf: "distinct rs" "CHR ''/'' \<notin> set org_name" "wf_targets org_repos"
      "org_name \<notin> fst ` set org_repos"
    using Cons.prems(3) by (auto simp: wf_targets_def p)
  have d1: "full_name org_name ` set rs \<inter> V = {}"
    using Cons.prems(4) by (auto simp: target_names_def p)
  have r1: "resumed d0 (V \<union> full_name org_name ` set rs) st1"
    using process_repos_resumed[OF q Cons.prems(2) wf(1) d1 wf(2)] .
  have "n \<notin> V \<union> full_name org_name ` set rs" if "n \<in> target_names org_repos" for n
  proof -
    from that obtain a xs x where m: "(a, xs) \<in> set org_repos" "x \<in> set xs" "n = full_name a x"
      by (auto simp: target_names_def)
    have ns: "CHR ''/'' \<notin> set a" using m(1) wf(3) by (auto simp: wf_targets_def)
    have "a \<noteq> org_name" using m(1) wf(4) by force
    then have "full_name a x \<noteq> full_name org_name r" for r
      using full_name_inj[OF ns wf(2), of x r] by blast
    moreover have "n \<notin> V" using that Cons.prems(4) by (auto simp: target_names_def p)
    ultimately show ?thesis using m(3) by auto
  qed
  then have d2: "target_names org_repos \<inter> (V \<union> full_name org_name ` set rs) = {}"
    by blast
  have "target_names (p # org_repos) = full_name org_name ` set rs \<union> target_names org_repos"
    by (simp add: target_names_def p)
  then show ?case using Cons.IH[OF rest r1 wf(3) d2] by (simp add: Un_assoc)
qed

text \<open>
  Claim C5. In a run of \<^verbatim>\<open>main\<close> that returns, every pull request query and every issue
  query that was issued uses the resume date of its repository with respect to the dataset
  as loaded at the start of the run: the fixed date \<open>2013-01-01\<close> for a repository that is
  not in the loaded \<^verbatim>\<open>repos_visited\<close>, the loaded \<^verbatim>\<open>last_updated\<close> for one that is. (The names
  given to \<^verbatim>\<open>--orgs\<close> are taken to be free of \<^verbatim>\<open>/\<close>, as GitHub's are.)
\<close>

theorem queries_use_resume_date:
  assumes "main opts today gh fs = Some (Inr (c, fs', qs))"
    and "load_existing_data fs (output_file opts) today = Inr d0"
    and "\<forall>org\<in>set (orgs opts). CHR ''/'' \<notin> set org"
  shows "\<forall>q\<in>set qs. uses_resume_date d0 q"
proof (cases "repos opts = [] \<and> orgs opts = []")
  case True
  then show ?thesis using assms(1) by (simp add: main_def)
next
  case False
  show ?thesis
  proof (cases "repos_option (repos opts) []")
    case None
    then show ?thesis using assms(1,2) False by (simp add: main_def)
  next
    case (Some org_repos0)
    from assms(1,2) False Some obtain org_repos qs0 st where
        o: "orgs_option gh (token opts) (orgs opts) (org_repos0, []) = Some (org_repos, qs0)"
        and p: "process_orgs gh opts today org_repos
                  \<lparr>dataset = d0, files = fs, requests = qs0\<rparr> = Some (Inr st)"
        and qs: "qs = requests st"
      by (auto simp: main_def split: option.splits sum.splits prod.splits if_splits)
    have "wf_targets []" by (simp add: wf_targets_def)
    then have wf0: "wf_targets org_repos0" using repos_option_wf[OF Some] by simp
    have wf: "wf_targets org_repos" and oq: "\<forall>q\<in>set qs0. \<exists>n c. q = ORG_QUERY n c"
      using orgs_option_wf[OF o wf0 assms(3)] by simp_all
    have "resumed d0 {} \<lparr>dataset = d0, files = fs, requests = qs0\<rparr>"
      using oq by (auto simp: resumed_def uses_resume_date_def)
    from process_orgs_resumed[OF p this wf] show ?thesis
      by (simp add: resumed_def qs)
  qed
qed


text \<open>A run on two repositories, of which the loaded dataset has visited the first.\<close>

definition widgets_visited :: dataset_file where
  "widgets_visited =
     \<lparr>file_last_updated = ''2024-03-01'', file_repos_visited = [''acme/widgets''],
      file_author_contrib = []\<rparr>"

definition two_repos :: options where
  "two_repos =
     \<lparr>orgs = [], repos = [''acme/widgets'', ''acme/gadgets''], token = None,
      output_file = ''monthly_activity.yaml''\<rparr>"

lemma split_acme_gadgets: "split_on CHR ''/'' ''acme/gadgets'' = [''acme'', ''gadgets'']"
  by simp

lemma load_widgets_visited:
  "load_existing_data (Map.empty(''monthly_activity.yaml'' \<mapsto> widgets_visited))
     ''monthly_activity.yaml'' \<lparr>year = 2024, month = 3, day = 20\<rparr>
   = Inr \<lparr>last_updated = ''2024-03-01'', repos_visited = [''acme/widgets''], author_contrib = []\<rparr>"
  by (simp add: load_existing_data_def widgets_visited_def set_of_list_def set_update_def set_add_def)

lemma main_two_repos:
  "main two_repos \<lparr>year = 2024, month = 3, day = 20\<rparr> quiet_github
     (Map.empty(''monthly_activity.yaml'' \<mapsto> widgets_visited)) =
     Some (Inr (0,
       Map.empty(''monthly_activity.yaml'' \<mapsto>
         \<lparr>file_last_updated = ''2024-03-20'',
          file_repos_visited = [''acme/widgets'', ''acme/gadgets''],
          file_author_contrib = []\<rparr>),
       [PR_QUERY ''acme'' ''widgets'' ''null'' ''null'' ''2024-03-01'' ''null'',
        ISSUE_QUERY ''acme'' ''widgets'' ''null'' ''2024-03-01'' ''null'',
        PR_QUERY ''acme'' ''gadgets'' ''null'' ''null'' ''2013-01-01'' ''null'',
        ISSUE_QUERY ''acme'' ''gadgets'' ''null'' ''2013-01-01'' ''null'']))"
  by (simp add: main_def two_repos_def quiet_github_def load_widgets_visited
        split_acme_widgets split_acme_gadgets process_repo_def resume_date_def full_name_def
        query_prs_none query_issues_none set_add_def write_out_data_def json_dump_def
        strftime_2024_03_20)

theorem queries_use_resume_date_witness:
  "main two_repos \<lparr>year = 2024, month = 3, day = 20\<rparr> quiet_github
     (Map.empty(''monthly_activity.yaml'' \<mapsto> widgets_visited)) =
     Some (Inr (0,
       Map.empty(''monthly_activity.yaml'' \<mapsto>
         \<lparr>file_last_updated = ''2024-03-20'',
          file_repos_visited = [''acme/widgets'', ''acme/gadgets''],
          file_author_contrib = []\<rparr>),
       [PR_QUERY ''acme'' ''widgets'' ''null'' ''null'' ''2024-03-01'' ''null'',
        ISSUE_QUERY ''acme'' ''widgets'' ''null'' ''2024-03-01'' ''null'',
        PR_QUERY ''acme'' ''gadgets'' ''null'' ''null'' ''2013-01-01'' ''null'',
        ISSUE_QUERY ''acme'' ''gadgets'' ''null'' ''2013-01-01'' ''null'']))
   \<and> uses_resume_date
        \<lparr>last_updated = ''2024-03-01'', repos_visited = [''acme/widgets''], author_contrib = []\<rparr>
        (PR_QUERY ''acme'' ''widgets'' ''null'' ''null'' ''2024-03-01'' ''null'')
   \<and> uses_resume_date
        \<lparr>last_updated = ''2024-03-01'', repos_visited = [''acme/widgets''], author_contrib = []\<rparr>
        (ISSUE_QUERY ''acme'' ''gadgets'' ''null'' ''2013-01-01'' ''null'')"
proof -
  have o: "\<forall>org\<in>set (orgs two_repos). CHR ''/'' \<notin> set org" by (simp add: two_repos_def)
  have f: "output_file two_repos = ''monthly_activity.yaml''" by (simp add: two_repos_def)
  have l: "load_existing_data (Map.empty(''monthly_activity.yaml'' \<mapsto> widgets_visited))
     (output_file two_repos) \<lparr>year = 2024, month = 3, day = 20\<rparr>
   = Inr \<lparr>last_updated = ''2024-03-01'', repos_visited = [''acme/widgets''], author_contrib = []\<rparr>"
    unfolding f by (rule load_widgets_visited)
  note t = queries_use_resume_date [OF main_two_repos l o]
  show ?thesis using t main_two_repos by simp
qed

section \<open>The renderer: the totals of an author\<close>

text \<open>
  \<open>all_counters c\<close> lists the items of the five counters in the order the renderer reads
  them; a month key is on or after the start when it parses to a date that is not before
  the start.
\<close>

definition all_counters :: "author_counts \<Rightarrow> (string, int) dict" where
  "all_counters c =
     prs_by_month c @ reviews_by_month c @ pr_comments_by_month c @ issues_by_month c
     @ issue_comments_by_month c"

definition on_or_after :: "date \<Rightarrow> string \<Rightarrow> bool" where
  "on_or_after start k = (case IsoDate k of Inl e \<Rightarrow> False | Inr d \<Rightarrow> \<not> date_less d start)"

lemma add_counter_ok:
  "\<forall>k\<in>fst ` set kvs. \<not> isl (IsoDate k) \<Longrightarrow>
   add_counter start kvs (t, ov) =
     Inr (add_months (filter (\<lambda>p. on_or_after start (fst p)) kvs) t,
          add_months (filter (\<lambda>p. on_or_after start (fst p)) kvs) ov)"
proof (induction kvs arbitrary: t ov)
  case Nil
  show ?case by (simp add: add_months_def)
next
  case (Cons p kvs)
  obtain k a where p: "p = (k, a)" by (cases p)
  obtain d where d: "IsoDate k = Inr d" using Cons.prems p by (cases "IsoDate k") auto
  have "\<forall>k\<in>fst ` set kvs. \<not> isl (IsoDate k)" using Cons.prems by simp
  note IH = Cons.IH[OF this]
  show ?case
    by (simp add: p d IH on_or_after_def add_months_def)
qed

lemma author_totals_ok:
  assumes "\<forall>k\<in>fst ` set (all_counters c). \<not> isl (IsoDate k)"
  shows "author_totals start c ov =
           Inr (add_months (filter (\<lambda>p. on_or_after start (fst p)) (all_counters c)) [],
                add_months (filter (\<lambda>p. on_or_after start (fst p)) (all_counters c)) ov)"
proof -
  have k: "\<forall>k\<in>fst ` set (prs_by_month c). \<not> isl (IsoDate k)"
    "\<forall>k\<in>fst ` set (reviews_by_month c). \<not> isl (IsoDate k)"
    "\<forall>k\<in>fst ` set (pr_comments_by_month c). \<not> isl (IsoDate k)"
    "\<forall>k\<in>fst ` set (issues_by_month c). \<not> isl (IsoDate k)"
    "\<forall>k\<in>fst ` set (issue_comments_by_month c). \<not> isl (IsoDate k)"
    using assms by (auto simp: all_counters_def)
  show ?thesis
    by (simp add: author_totals_def add_counter_ok[OF k(1)] add_counter_ok[OF k(2)]
          add_counter_ok[OF k(3)] add_counter_ok[OF k(4)] add_counter_ok[OF k(5)]
          all_counters_def add_months_append)
qed

text \<open>The dataset of the scenario: one author with two months of pull requests.\<close>

definition alice_2023 :: author_counts where
  "alice_2023 =
     \<lparr>prs_by_month = [(''2023-01'', 2), (''2023-02'', 1)], reviews_by_month = [],
      pr_comments_by_month = [], issues_by_month = [], issue_comments_by_month = []\<rparr>"

lemma IsoDate_2023_01: "IsoDate ''2023-01'' = Inr \<lparr>year = 2023, month = 1, day = 1\<rparr>"
  by code_simp

lemma IsoDate_2023_02: "IsoDate ''2023-02'' = Inr \<lparr>year = 2023, month = 2, day = 1\<rparr>"
  by code_simp

text \<open>
  Claim C9. \<^verbatim>\<open>--since 2023-01\<close> is the date 2023-01-01, and on the dataset with the one
  author \<open>alice\<close>, \<^verbatim>\<open>prs_by_month\<close> \<open>{2023-01: 2, 2023-02: 1}\<close> and the other counters
  empty, the renderer plots one series, with exactly the two points (2023-01, 2) and
  (2023-02, 1). In general, for an author whose month keys all parse, the total of a
  month is the sum of the counts that the five counters hold under it, each count taken
  once, and the months that have a total are those of the counters that are on or after
  the start.
\<close>

theorem renderer_totals:
  assumes "\<forall>k\<in>fst ` set (all_counters c). \<not> isl (IsoDate k)"
  shows "IsoDate ''2023-01'' = Inr \<lparr>year = 2023, month = 1, day = 1\<rparr>
    \<and> graph_main \<lparr>authors = [], anonymize = False, since = \<lparr>year = 2023, month = 1, day = 1\<rparr>,
                   input_file = ''monthly_activity.yaml''\<rparr>
         (Map.empty(''monthly_activity.yaml'' \<mapsto>
            \<lparr>file_last_updated = ''2023-03-01'', file_repos_visited = [''acme/widgets''],
             file_author_contrib = [(''alice'', alice_2023)]\<rparr>))
       = Inr ([\<lparr>plot_x = [''2023-01'', ''2023-02''], plot_y = [2, 1], plot_label = ''alice''\<rparr>],
              [(''2023-01'', 2), (''2023-02'', 1)])
    \<and> (\<exists>totals ov'. author_totals start c ov = Inr (totals, ov')
          \<and> (\<forall>k. map_of totals k =
                (if k \<in> fst ` set (all_counters c) \<and> on_or_after start k
                 then Some (sum_list (map snd (filter (\<lambda>p. fst p = k) (all_counters c))))
                 else None)))"
proof -
  have scenario: "graph_main \<lparr>authors = [], anonymize = False, since = \<lparr>year = 2023, month = 1, day = 1\<rparr>,
                   input_file = ''monthly_activity.yaml''\<rparr>
         (Map.empty(''monthly_activity.yaml'' \<mapsto>
            \<lparr>file_last_updated = ''2023-03-01'', file_repos_visited = [''acme/widgets''],
             file_author_contrib = [(''alice'', alice_2023)]\<rparr>))
       = Inr ([\<lparr>plot_x = [''2023-01'', ''2023-02''], plot_y = [2, 1], plot_label = ''alice''\<rparr>],
              [(''2023-01'', 2), (''2023-02'', 1)])"
    by (simp add: graph_main_def author_totals_def alice_2023_def IsoDate_2023_01 IsoDate_2023_02
          date_less_def add_to_month_def)
  have filt: "filter (\<lambda>p. fst p = k) (filter (\<lambda>p. on_or_after start (fst p)) (all_counters c))
      = (if on_or_after start k then filter (\<lambda>p. fst p = k) (all_counters c) else [])" for k
    by (rule filter_key_filter)
  have dom: "k \<in> fst ` set (filter (\<lambda>p. on_or_after start (fst p)) (all_counters c))
      \<longleftrightarrow> k \<in> fst ` set (all_counters c) \<and> on_or_after start k" for k
    by auto
  have law: "map_of (add_months (filter (\<lambda>p. on_or_after start (fst p)) (all_counters c)) []) k =
                (if k \<in> fst ` set (all_counters c) \<and> on_or_after start k
                 then Some (sum_list (map snd (filter (\<lambda>p. fst p = k) (all_counters c))))
                 else None)" for k
    unfolding map_of_add_months dom filt by simp
  show ?thesis
    using scenario law by (simp add: author_totals_ok[OF assms] IsoDate_2023_01)
qed


text \<open>An author with activity of all five kinds, one month of it before the start.\<close>

definition busy_counts :: author_counts where
  "busy_counts =
     \<lparr>prs_by_month = [(''2022-12'', 5), (''2023-01'', 2)], reviews_by_month = [(''2023-01'', 3)],
      pr_comments_by_month = [(''2023-01'', 1)], issues_by_month = [(''2023-02'', 4)],
      issue_comments_by_month = [(''2023-01'', 10)]\<rparr>"

lemma IsoDate_2022_12: "IsoDate ''2022-12'' = Inr \<lparr>year = 2022, month = 12, day = 1\<rparr>"
  by code_simp

theorem renderer_totals_witness:
  "\<exists>totals ov'. author_totals \<lparr>year = 2023, month = 1, day = 1\<rparr> busy_counts [] = Inr (totals, ov')
     \<and> map_of totals ''2023-01'' = Some 16 \<and> map_of totals ''2023-02'' = Some 4
     \<and> map_of totals ''2022-12'' = None"
proof -
  let ?start = "\<lparr>year = 2023, month = 1, day = 1\<rparr>"
  have h: "\<forall>k\<in>fst ` set (all_counters busy_counts). \<not> isl (IsoDate k)"
    by (simp add: all_counters_def busy_counts_def IsoDate_2022_12 IsoDate_2023_01 IsoDate_2023_02)
  have "\<exists>totals ov'. author_totals ?start busy_counts [] = Inr (totals, ov')
          \<and> (\<forall>k. map_of totals k =
                (if k \<in> fst ` set (all_counters busy_counts) \<and> on_or_after ?start k
                 then Some (sum_list (map snd (filter (\<lambda>p. fst p = k) (all_counters busy_counts))))
                 else None))"
    using renderer_totals [OF h, of ?start "[]"] by (elim conjE)
  then obtain totals ov' where r: "author_totals ?start busy_counts [] = Inr (totals, ov')"
      and m: "\<And>k. map_of totals k =
                (if k \<in> fst ` set (all_counters busy_counts) \<and> on_or_after ?start k
                 then Some (sum_list (map snd (filter (\<lambda>p. fst p = k) (all_counters busy_counts))))
                 else None)"
    by blast
  have "map_of totals ''2023-01'' = Some 16" "map_of totals ''2023-02'' = Some 4"
      "map_of totals ''2022-12'' = None"
    by (simp_all add: m all_counters_def busy_counts_def on_or_after_def date_less_def
          IsoDate_2022_12 IsoDate_2023_01 IsoDate_2023_02)
  then show ?thesis using r by blast
qed

section \<open>The renderer: the labels of anonymized authors\<close>

text \<open>
  An author passes the filter when \<^verbatim>\<open>--authors\<close> is empty or names the author; \<open>plots_of\<close>
  says that a plot is the series of an author.
\<close>

definition passes :: "graph_options \<Rightarrow> string \<times> author_counts \<Rightarrow> bool" where
  "passes opts p = (\<not> (authors opts \<noteq> [] \<and> fst p \<notin> set (authors opts)))"

definition plots_of :: "graph_options \<Rightarrow> plot \<Rightarrow> string \<times> author_counts \<Rightarrow> bool" where
  "plots_of opts p ac =
     (\<exists>totals ov ov'. author_totals (since opts) (snd ac) ov = Inr (totals, ov')
        \<and> plot_x p = map fst totals \<and> plot_y p = map snd totals)"

lemma graph_authors_labels:
  "graph_authors opts acs (n, ov, plots) = Inr (n', ov', plots') \<Longrightarrow> anonymize opts \<Longrightarrow>
   (\<exists>new. plots' = plots @ new
      \<and> map plot_label new = map (\<lambda>i. ''Developer '' @ str_int (n + int i)) [0..<length (filter (passes opts) acs)]
      \<and> list_all2 (plots_of opts) new (filter (passes opts) acs))"
proof (induction acs arbitrary: n ov plots)
  case Nil
  then show ?case by simp
next
  case (Cons p acs)
  obtain author contrib where p: "p = (author, contrib)" by (cases p)
  show ?case
  proof (cases "passes opts p")
    case False
    then have "graph_authors opts acs (n, ov, plots) = Inr (n', ov', plots')"
      using Cons.prems(1) by (simp add: p passes_def)
    from Cons.IH[OF this Cons.prems(2)] show ?thesis using False by simp
  next
    case True
    then obtain totals ov1 where t: "author_totals (since opts) contrib ov = Inr (totals, ov1)"
        and g: "graph_authors opts acs (n + 1, ov1,
                  plots @ [\<lparr>plot_x = map fst totals, plot_y = map snd totals,
                            plot_label = ''Developer '' @ str_int n\<rparr>]) = Inr (n', ov', plots')"
      using Cons.prems by (auto simp: p passes_def split: sum.splits)
    let ?pl = "\<lparr>plot_x = map fst totals, plot_y = map snd totals,
                            plot_label = ''Developer '' @ str_int n\<rparr>"
    from Cons.IH[OF g Cons.prems(2)] obtain new where new: "plots' = (plots @ [?pl]) @ new"
        "map plot_label new = map (\<lambda>i. ''Developer '' @ str_int (n + 1 + int i)) [0..<length (filter (passes opts) acs)]"
        "list_all2 (plots_of opts) new (filter (passes opts) acs)"
      by blast
    have upt: "[0..<Suc k] = 0 # map Suc [0..<k]" for k
      by (simp add: upt_conv_Cons map_Suc_upt del: upt_Suc)
    have po: "plots_of opts ?pl p" using t by (auto simp: plots_of_def p)
    have lab: "map plot_label (?pl # new) = map (\<lambda>i. ''Developer '' @ str_int (n + int i)) [0..<length (filter (passes opts) (p # acs))]"
      using True new(2) by (simp add: upt comp_def add.assoc del: upt_Suc)
    show ?thesis
      apply (rule exI[of _ "?pl # new"])
      using True new(1,3) po lab by simp
  qed
qed

text \<open>
  Claim C10. With \<^verbatim>\<open>--anonymize\<close>, the plots are labelled \<open>Developer 1\<close>, \<open>Developer 2\<close>, ...
  in this order, one plot for each author that passes the \<^verbatim>\<open>--authors\<close> filter, in the order
  of the dataset: an author that the filter skips takes no number.
\<close>

theorem anonymized_labels:
  assumes "fs (input_file opts) = Some f"
    and "anonymize opts"
    and "graph_main opts fs = Inr (plots, ov)"
  shows "map plot_label plots =
           map (\<lambda>i. ''Developer '' @ str_int (1 + int i))
             [0..<length (filter (passes opts) (file_author_contrib f))]
       \<and> list_all2 (plots_of opts) plots (filter (passes opts) (file_author_contrib f))"
proof -
  obtain n where "graph_authors opts (file_author_contrib f) (1, [], []) = Inr (n, ov, plots)"
    using assms(1,3) by (auto simp: graph_main_def split: sum.splits)
  from graph_authors_labels[OF this assms(2)] show ?thesis by simp
qed


text \<open>Three authors, of which the filter keeps the first and the third.\<close>

definition three_authors :: dataset_file where
  "three_authors =
     \<lparr>file_last_updated = ''2023-03-01'', file_repos_visited = [''acme/widgets''],
      file_author_contrib = [(''alice'', alice_2023), (''bob'', alice_2023), (''carol'', busy_counts)]\<rparr>"

definition alice_and_carol :: graph_options where
  "alice_and_carol =
     \<lparr>authors = [''alice'', ''carol''], anonymize = True, since = \<lparr>year = 2023, month = 1, day = 1\<rparr>,
      input_file = ''monthly_activity.yaml''\<rparr>"

lemma str_int_digit: "0 \<le> i \<Longrightarrow> i < 10 \<Longrightarrow> str_int i = [digit_chars ! nat i]"
  by (simp add: str_int_def str_nat_1)

theorem anonymized_labels_witness:
  "\<exists>plots ov. graph_main alice_and_carol (Map.empty(''monthly_activity.yaml'' \<mapsto> three_authors))
                 = Inr (plots, ov)
     \<and> map plot_label plots = [''Developer 1'', ''Developer 2'']
     \<and> map plot_y plots = [[2, 1], [16, 4]]"
proof -
  let ?fs = "Map.empty(''monthly_activity.yaml'' \<mapsto> three_authors)"
  have g: "graph_main alice_and_carol ?fs =
      Inr ([\<lparr>plot_x = [''2023-01'', ''2023-02''], plot_y = [2, 1], plot_label = ''Developer 1''\<rparr>,
            \<lparr>plot_x = [''2023-01'', ''2023-02''], plot_y = [16, 4], plot_label = ''Developer 2''\<rparr>],
           [(''2023-01'', 18), (''2023-02'', 5)])"
    by (simp add: graph_main_def alice_and_carol_def three_authors_def author_totals_def
          alice_2023_def busy_counts_def IsoDate_2022_12 IsoDate_2023_01 IsoDate_2023_02
          date_less_def add_to_month_def str_int_digit digit_chars_def)
  have f: "?fs (input_file alice_and_carol) = Some three_authors"
    by (simp add: alice_and_carol_def)
  have a: "anonymize alice_and_carol" by (simp add: alice_and_carol_def)
  have "map plot_label [\<lparr>plot_x = [''2023-01'', ''2023-02''], plot_y = [2, 1], plot_label = ''Developer 1''\<rparr>,
            \<lparr>plot_x = [''2023-01'', ''2023-02''], plot_y = [16, 4], plot_label = ''Developer 2''\<rparr>]
        = map (\<lambda>i. ''Developer '' @ str_int (1 + int i))
             [0..<length (filter (passes alice_and_carol) (file_author_contrib three_authors))]"
    using anonymized_labels [OF f a g] by (elim conjE)
  then show ?thesis using g by simp
qed

end
